theory Spec2Isabelle
  imports Main "HOL-Library.Word" "HOL-Library.Sublist"
begin

unbundle bit_operations_syntax

section \<open>Data model of v3.go\<close>

text \<open>
  Go's \<open>byte\<close> is an 8-bit word; a Go \<open>string\<close> and a \<open>[]byte\<close> are both sequences of
  bytes. \<open>uint32\<close> and \<open>uint64\<close> are 32 and 64 bit words, whose addition wraps around as
  \<open>atomic.AddUint32\<close> and \<open>atomic.AddUint64\<close> do.
\<close>

type_synonym byte = "8 word"
type_synonym bytes = "byte list"

text \<open>
  A Go function either returns or panics. The run-time panics of v3.go are the integer
  division by zero, an index out of range, slice bounds out of range and the dereference
  of a nil pointer.
\<close>

datatype panic = DivideByZero | IndexOutOfRange | SliceBoundsOutOfRange | NilPointerDereference

text \<open>The fields extractV3Packet reads with \<open>parseRawField\<close>, by the name it passes.\<close>

datatype field =
    F_msgID | F_maxMsgSize | F_msgFlags | F_msgSecurityModel
  | F_msgAuthoritativeEngineID | F_msgAuthoritativeEngineBoots | F_msgAuthoritativeEngineTime
  | F_msgUserName | F_msgAuthenticationParameters | F_msgPrivacyParameters
  | F_contextEngineID | F_contextName

text \<open>
  The error values v3.go builds with \<open>fmt.Errorf\<close>, one constructor per message and
  function, and the errors it passes on from code outside v3.go (\<open>Foreign\<close>, told apart by
  a number).
\<close>

datatype error =
    OnlyUsmImplemented
  | SecurityParametersNotPopulated
  | PrivacyProtocolRequired
  | PrivacyPassphraseRequired
  | AuthenticationProtocolRequired
  | AuthenticationPassphraseRequired
  | UserNameRequired
  | SecurityLevelRequired
  | UnknownSecurityModel
  | UnableToExtractUsm
  | ConnectionNotUsm
  | PacketOutNotUsm
  | NegotiateNotVersion3
  | ModelNotAsDefinedInPacket
  | StoreNotVersion3
  | ModelNotAsExtractedFromPacket
  | ResultNotUsm
  | UpdateNotVersion3
  | UpdateConnectionNotUsm
  | UpdatePacketOutNotUsm
  | PacketNotUsm
  | ScopedPacketNotUsm
  | InvalidHeader
  | ErrorParsing field error
  | InvalidSecurityParametersTag
  | UsmParametersNotSequence
  | AuthenticationParametersWrongSize
  | NotAuthentic
  | ResponseNotUsm
  | NotMultipleOfBlockSize
  | ErrorParsingScopedPDU
  | Foreign nat

text \<open>The outcome of a call: a value, a returned error, or a panic that unwinds the caller.\<close>

datatype 'a result = Ok 'a | Err error | Panic panic

fun bind :: "'a result \<Rightarrow> ('a \<Rightarrow> 'b result) \<Rightarrow> 'b result" where
  "bind (Ok v) f = f v"
| "bind (Err e) f = Err e"
| "bind (Panic p) f = Panic p"

text \<open>
  The packages crypto/md5, crypto/sha1, crypto/aes, crypto/des and crypto/cipher belong to
  the Go standard library, not to this repository: the digests and the two ciphers are
  parameters of the model. \<open>aes_cfb_encrypt k iv p\<close> stands for
  \<open>cipher.NewCFBEncrypter(aes.NewCipher(k), iv).XORKeyStream(dst, p)\<close> and
  \<open>des_cbc_encrypt k iv p\<close> for \<open>cipher.NewCBCEncrypter(des.NewCipher(k), iv).CryptBlocks(dst, p)\<close>.
\<close>

record primitives =
  md5_sum :: "bytes \<Rightarrow> bytes"
  sha1_sum :: "bytes \<Rightarrow> bytes"
  aes_cfb_encrypt :: "bytes \<Rightarrow> bytes \<Rightarrow> bytes \<Rightarrow> bytes"
  aes_cfb_decrypt :: "bytes \<Rightarrow> bytes \<Rightarrow> bytes \<Rightarrow> bytes"
  des_cbc_encrypt :: "bytes \<Rightarrow> bytes \<Rightarrow> bytes \<Rightarrow> bytes"
  des_cbc_decrypt :: "bytes \<Rightarrow> bytes \<Rightarrow> bytes \<Rightarrow> bytes"

text \<open>
  A \<open>hash.Hash\<close> object: \<open>Write\<close> appends to what has been written, \<open>Sum(nil)\<close> is the
  digest of all of it.
\<close>

record hash =
  digest :: "bytes \<Rightarrow> bytes"
  written :: bytes

definition md5_New :: "primitives \<Rightarrow> hash" where
  "md5_New c = \<lparr>digest = md5_sum c, written = []\<rparr>"

definition sha1_New :: "primitives \<Rightarrow> hash" where
  "sha1_New c = \<lparr>digest = sha1_sum c, written = []\<rparr>"

definition Write :: "hash \<Rightarrow> bytes \<Rightarrow> hash" where
  "Write h bs = h\<lparr>written := written h @ bs\<rparr>"

definition Sum :: "hash \<Rightarrow> bytes" where
  "Sum h = digest h (written h)"

text \<open>
  The sizes Go documents for the digests (\<open>md5.Size = 16\<close>, \<open>sha1.Size = 20\<close>).
\<close>

definition digest_sizes :: "primitives \<Rightarrow> bool" where
  "digest_sizes c \<longleftrightarrow> (\<forall>x. length (md5_sum c x) = 16) \<and> (\<forall>x. length (sha1_sum c x) = 20)"

text \<open>The constants of \<open>SnmpV3MsgFlags\<close>, \<open>SnmpV3SecurityModel\<close>, \<open>SnmpV3AuthProtocol\<close> and
  \<open>SnmpV3PrivProtocol\<close>, all \<open>uint8\<close>.\<close>

definition NoAuthNoPriv :: byte where "NoAuthNoPriv = 0x0"
definition AuthNoPriv :: byte where "AuthNoPriv = 0x1"
definition AuthPriv :: byte where "AuthPriv = 0x3"
definition Reportable :: byte where "Reportable = 0x4"

definition UserSecurityModel :: byte where "UserSecurityModel = 3"

definition NoAuth :: byte where "NoAuth = 1"
definition MD5 :: byte where "MD5 = 2"
definition SHA :: byte where "SHA = 3"

definition NoPriv :: byte where "NoPriv = 1"
definition DES :: byte where "DES = 2"
definition AES :: byte where "AES = 3"

section \<open>Key localization: md5HMAC, shaHMAC, genlocalkey\<close>

text \<open>
  The inner loop \<open>for e := 0; e < 64; e++\<close> of md5HMAC and shaHMAC: it appends
  \<open>password[pi%len(password)]\<close> to the chunk and advances \<open>pi\<close>. The remainder panics on an
  empty password.
\<close>

function chunk_loop :: "bytes \<Rightarrow> nat \<Rightarrow> nat \<Rightarrow> bytes \<Rightarrow> (bytes \<times> nat) result" where
  "chunk_loop password pi e chunk =
     (if e < 64 then
        (if length password = 0 then Panic DivideByZero
         else chunk_loop password (pi + 1) (e + 1) (chunk @ [password ! (pi mod length password)]))
      else Ok (chunk, pi))"
  by pat_completeness auto
termination
  by (relation "measure (\<lambda>(password, pi, e, chunk). 64 - e)") auto

declare chunk_loop.simps [simp del]

text \<open>
  The outer loop \<open>for i := 0; i < 1048576; i += 64\<close>: it builds one chunk and writes it to
  the hash. Both functions run the same loop, on an MD5 and on a SHA-1 object.
\<close>

function password_loop :: "bytes \<Rightarrow> nat \<Rightarrow> nat \<Rightarrow> hash \<Rightarrow> hash result" where
  "password_loop password i pi comph =
     (if i < 1048576 then
        (case chunk_loop password pi 0 [] of
           Ok (chunk, pi') \<Rightarrow> password_loop password (i + 64) pi' (Write comph chunk)
         | Err e \<Rightarrow> Err e
         | Panic p \<Rightarrow> Panic p)
      else Ok comph)"
  by pat_completeness auto
termination
  by (relation "measure (\<lambda>(password, i, pi, comph). 1048576 - i)") auto

declare password_loop.simps [simp del]

definition md5HMAC :: "primitives \<Rightarrow> bytes \<Rightarrow> bytes \<Rightarrow> bytes result" where
  "md5HMAC c password engineID =
     bind (password_loop password 0 0 (md5_New c)) (\<lambda>comph.
       let compressed = Sum comph;
           local = Write (Write (Write (md5_New c) compressed) engineID) compressed
       in Ok (Sum local))"

definition shaHMAC :: "primitives \<Rightarrow> bytes \<Rightarrow> bytes \<Rightarrow> bytes result" where
  "shaHMAC c password engineID =
     bind (password_loop password 0 0 (sha1_New c)) (\<lambda>hash.
       let hashed = Sum hash;
           local = Write (Write (Write (sha1_New c) hashed) engineID) hashed
       in Ok (Sum local))"

text \<open>\<open>switch authProtocol { default: md5HMAC; case SHA: shaHMAC }\<close>\<close>

definition genlocalkey :: "primitives \<Rightarrow> byte \<Rightarrow> bytes \<Rightarrow> bytes \<Rightarrow> bytes result" where
  "genlocalkey c authProtocol passphrase engineID =
     (if authProtocol = SHA then shaHMAC c passphrase engineID
      else md5HMAC c passphrase engineID)"

text \<open>
  The specification's words for the hashed stream: the passphrase repeated cyclically, cut
  at \<open>n\<close> bytes.
\<close>

definition cyclic_stream :: "bytes \<Rightarrow> nat \<Rightarrow> bytes" where
  "cyclic_stream passphrase n = take n (concat (replicate n passphrase))"

section \<open>Slices, packets and connections\<close>

text \<open>
  A Go slice sees \<open>len\<close> bytes of its backing array and may be re-sliced up to \<open>cap\<close>:
  \<open>elems\<close> are the \<open>len\<close> bytes of the slice, \<open>room\<close> the \<open>cap - len\<close> bytes of the array
  behind them. An index expression \<open>s[i]\<close> and \<open>s[lo:]\<close> are checked against \<open>len\<close>, a
  slice expression \<open>s[lo:hi]\<close> against \<open>cap\<close>.
\<close>

record slice =
  elems :: bytes
  room :: bytes

definition array :: "slice \<Rightarrow> bytes" where
  "array s = elems s @ room s"

text \<open>
  \<open>copy(s[lo:hi], src)\<close>: the slice expression panics unless \<open>lo \<le> hi \<le> cap(s)\<close>;
  \<open>copy\<close> then moves \<open>min(hi - lo, len(src))\<close> bytes into the backing array. The slice
  \<open>s\<close> keeps its length.
\<close>

definition copy_to :: "slice \<Rightarrow> nat \<Rightarrow> nat \<Rightarrow> bytes \<Rightarrow> slice result" where
  "copy_to s lo hi src =
     (if hi < lo \<or> length (array s) < hi then Panic SliceBoundsOutOfRange
      else
        let n = min (hi - lo) (length src);
            arr = take lo (array s) @ take n src @ drop (lo + n) (array s)
        in Ok \<lparr>elems = take (length (elems s)) arr, room = drop (length (elems s)) arr\<rparr>)"

text \<open>
  \<open>d[:n]\<close> on the slice a digest's \<open>Sum(nil)\<close> returns; its capacity is taken to be its
  length.
\<close>

definition prefix_slice :: "bytes \<Rightarrow> nat \<Rightarrow> bytes result" where
  "prefix_slice d n = (if length d < n then Panic SliceBoundsOutOfRange else Ok (take n d))"

record UsmSecurityParameters =
  AuthoritativeEngineID :: bytes
  AuthoritativeEngineBoots :: "32 word"
  AuthoritativeEngineTime :: "32 word"
  UserName :: bytes
  AuthenticationParameters :: bytes
  PrivacyParameters :: bytes
  AuthenticationProtocol :: byte
  PrivacyProtocol :: byte
  AuthenticationPassphrase :: bytes
  PrivacyPassphrase :: bytes
  localDESSalt :: "32 word"
  localAESSalt :: "64 word"

text \<open>
  A value of the interface \<open>SnmpV3SecurityParameters\<close>, whose one implementation is
  \<open>*UsmSecurityParameters\<close>: the nil interface (the type assertion gives \<open>ok = false\<close>), a
  nil pointer of that type (\<open>ok = true\<close>, pointer nil), or a pointer to parameters.
\<close>

datatype SnmpV3SecurityParameters = NilInterface | NilUsm | Usm UsmSecurityParameters

text \<open>
  The types \<open>SnmpPacket\<close> and \<open>GoSNMP\<close> are declared outside v3.go; the records hold the
  fields v3.go reads and writes. The fields of the connection \<open>x *GoSNMP\<close> carry the
  receiver's name as a prefix. \<open>Version3\<close>, \<open>GetRequest\<close> and the BER tags are constants
  declared outside v3.go as well.
\<close>

record SnmpPacket =
  Version :: byte
  MsgFlags :: byte
  SecurityModel :: byte
  SecurityParameters :: SnmpV3SecurityParameters
  ContextEngineID :: bytes
  ContextName :: bytes
  PDUType :: byte
  MsgID :: "32 word"

record GoSNMP =
  x_Version :: byte
  x_MsgFlags :: byte
  x_SecurityModel :: byte
  x_SecurityParameters :: SnmpV3SecurityParameters
  x_ContextEngineID :: bytes
  x_msgID :: "32 word"

text \<open>Modelled from the spec: \<open>msgVersion\<close> is the INTEGER 3 (the constant \<open>Version3\<close>).\<close>

definition Version3 :: byte where "Version3 = 3"

text \<open>Modelled from the spec: the tag numbers SEQUENCE = 0x30, INTEGER = 0x02,
  OCTET STRING = 0x04 (the constants \<open>Sequence\<close>, \<open>Integer\<close> and \<open>OctetString\<close>).\<close>

definition Sequence :: byte where "Sequence = 0x30"
definition Integer :: byte where "Integer = 0x02"
definition OctetString :: byte where "OctetString = 0x04"

text \<open>The PDU type \<open>GetRequest\<close>, the context tag 0 of RFC 3416.\<close>

definition GetRequest :: byte where "GetRequest = 0xa0"

section \<open>authenticate and isAuthentic\<close>

text \<open>
  \<open>var extkey [64]byte; copy(extkey[:], secretKey)\<close>: the key, cut or filled with zeros
  to 64 bytes. The loop \<open>for i := 0; i < 64; i++\<close> XORs each of the 64 bytes.
\<close>

definition extend_key :: "bytes \<Rightarrow> bytes" where
  "extend_key secretKey = take 64 (secretKey @ replicate 64 0)"

definition xor_pad :: "byte \<Rightarrow> bytes \<Rightarrow> bytes" where
  "xor_pad pad extkey = map (\<lambda>b. b XOR pad) extkey"

text \<open>\<open>switch authProtocol { default: md5.New(); case SHA: sha1.New() }\<close>\<close>

definition new_hash :: "primitives \<Rightarrow> byte \<Rightarrow> hash" where
  "new_hash c authProtocol = (if authProtocol = SHA then sha1_New c else md5_New c)"

text \<open>
  The digest both functions compute from the key and the message:
  \<open>h.Write(k1); h.Write(msg); d1 := h.Sum(nil); h2.Write(k2); h2.Write(d1); h2.Sum(nil)\<close>.
\<close>

definition keyed_digest :: "primitives \<Rightarrow> byte \<Rightarrow> bytes \<Rightarrow> bytes \<Rightarrow> bytes" where
  "keyed_digest c authProtocol secretKey msg =
     (let extkey = extend_key secretKey;
          k1 = xor_pad 0x36 extkey;
          k2 = xor_pad 0x5c extkey;
          h = Write (Write (new_hash c authProtocol) k1) msg;
          d1 = Sum h;
          h2 = Write (Write (new_hash c authProtocol) k2) d1
      in Sum h2)"

text \<open>The body of authenticate, before the deferred \<open>recover\<close>.\<close>

definition authenticate_body ::
  "primitives \<Rightarrow> SnmpPacket \<Rightarrow> slice \<Rightarrow> 32 word \<Rightarrow> slice result" where
  "authenticate_body c packet msg authParamStart =
     (if Version packet \<noteq> Version3 then Ok msg
      else if MsgFlags packet AND AuthNoPriv = 0 then Ok msg
      else if SecurityModel packet \<noteq> UserSecurityModel then Err UnknownSecurityModel
      else
        (case SecurityParameters packet of
           Usm secParams \<Rightarrow>
             bind (genlocalkey c (AuthenticationProtocol secParams)
                     (AuthenticationPassphrase secParams) (AuthoritativeEngineID secParams))
               (\<lambda>secretKey.
                  bind (prefix_slice
                          (keyed_digest c (AuthenticationProtocol secParams) secretKey (elems msg)) 12)
                    (\<lambda>tag. copy_to msg (unat authParamStart) (unat (authParamStart + 12)) tag))
         | _ \<Rightarrow> Err UnableToExtractUsm))"

text \<open>
  authenticate returns the pair \<open>([]byte, error)\<close>. Its deferred function recovers from
  every panic of the body, and the function then returns the zero values \<open>(nil, nil)\<close>.
\<close>

definition authenticate ::
  "primitives \<Rightarrow> SnmpPacket \<Rightarrow> slice \<Rightarrow> 32 word \<Rightarrow> slice option \<times> error option" where
  "authenticate c packet msg authParamStart =
     (case authenticate_body c packet msg authParamStart of
        Ok m \<Rightarrow> (Some m, None)
      | Err e \<Rightarrow> (None, Some e)
      | Panic p \<Rightarrow> (None, None))"

text \<open>
  The loop \<open>for k, v := range []byte(authParams)\<close> of isAuthentic; \<open>result[k]\<close> panics
  beyond the 12 bytes of \<open>result\<close>.
\<close>

fun compare_loop :: "bytes \<Rightarrow> nat \<Rightarrow> bytes \<Rightarrow> bool result" where
  "compare_loop result k [] = Ok True"
| "compare_loop result k (v # vs) =
     (if length result \<le> k then Panic IndexOutOfRange
      else if result ! k \<noteq> v then Ok False
      else compare_loop result (k + 1) vs)"

definition isAuthentic :: "primitives \<Rightarrow> bytes \<Rightarrow> bytes \<Rightarrow> byte \<Rightarrow> bytes \<Rightarrow> bytes \<Rightarrow> bool result" where
  "isAuthentic c msg authParams authProtocol authPassphrase authEngineID =
     bind (genlocalkey c authProtocol authPassphrase authEngineID) (\<lambda>secretKey.
       bind (prefix_slice (keyed_digest c authProtocol secretKey msg) 12) (\<lambda>result.
         compare_loop result 0 authParams))"

text \<open>
  The specification's words for the authenticator: HMAC of RFC 2104 with a 64-byte block,
  ipad 0x36 and opad 0x5C, over a hash function \<open>H\<close>.
\<close>

definition hmac_rfc2104 :: "(bytes \<Rightarrow> bytes) \<Rightarrow> bytes \<Rightarrow> bytes \<Rightarrow> bytes" where
  "hmac_rfc2104 H K text =
     (let K' = (if 64 < length K then H K else K);
          K0 = K' @ replicate (64 - length K') 0
      in H (map (\<lambda>b. b XOR 0x5C) K0 @ H (map (\<lambda>b. b XOR 0x36) K0 @ text)))"

section \<open>The specification's key localization\<close>

text \<open>
  The specification's words for the localized key: \<open>Ku\<close> is the digest of the
  1,048,576-byte stream, and the key is \<open>H(Ku || engine_id || Ku)\<close>.
\<close>

definition localize :: "(bytes \<Rightarrow> bytes) \<Rightarrow> bytes \<Rightarrow> bytes \<Rightarrow> bytes" where
  "localize H passphrase engine_id =
     (let Ku = H (cyclic_stream passphrase 1048576) in H (Ku @ engine_id @ Ku))"

text \<open>The digest the \<open>switch\<close> on the authentication protocol selects.\<close>

definition chosen_digest :: "primitives \<Rightarrow> byte \<Rightarrow> bytes \<Rightarrow> bytes" where
  "chosen_digest c authProtocol = (if authProtocol = SHA then sha1_sum c else md5_sum c)"

text \<open>
  The specification's words for the authentication parameters: the first 12 bytes of the
  HMAC of the message under the localized key.
\<close>

definition expected_tag :: "primitives \<Rightarrow> byte \<Rightarrow> bytes \<Rightarrow> bytes \<Rightarrow> bytes \<Rightarrow> bytes" where
  "expected_tag c authProtocol authPassphrase authEngineID msg =
     take 12 (hmac_rfc2104 (chosen_digest c authProtocol)
       (localize (chosen_digest c authProtocol) authPassphrase authEngineID) msg)"

section \<open>validateParametersV3\<close>

text \<open>
  The \<open>switch securityLevel\<close> of validateParametersV3 falls through from \<open>AuthPriv\<close> to
  \<open>AuthNoPriv\<close> to \<open>NoAuthNoPriv\<close>; each case is a function that ends in the next one.
  A Go \<open>error\<close> result is an \<open>error option\<close>, \<open>None\<close> for \<open>nil\<close>.
\<close>

definition validate_NoAuthNoPriv :: "UsmSecurityParameters \<Rightarrow> error option" where
  "validate_NoAuthNoPriv usm = (if UserName usm = [] then Some UserNameRequired else None)"

definition validate_AuthNoPriv :: "UsmSecurityParameters \<Rightarrow> error option" where
  "validate_AuthNoPriv usm =
     (if AuthenticationProtocol usm \<le> NoAuth then Some AuthenticationProtocolRequired
      else if AuthenticationPassphrase usm = [] then Some AuthenticationPassphraseRequired
      else validate_NoAuthNoPriv usm)"

definition validate_AuthPriv :: "UsmSecurityParameters \<Rightarrow> error option" where
  "validate_AuthPriv usm =
     (if PrivacyProtocol usm \<le> NoPriv then Some PrivacyProtocolRequired
      else if PrivacyPassphrase usm = [] then Some PrivacyPassphraseRequired
      else validate_AuthNoPriv usm)"

definition validateParametersV3 :: "GoSNMP \<Rightarrow> error option" where
  "validateParametersV3 x =
     (if x_SecurityModel x \<noteq> UserSecurityModel then Some OnlyUsmImplemented
      else
        (case x_SecurityParameters x of
           Usm usm \<Rightarrow>
             (let securityLevel = x_MsgFlags x AND AuthPriv in
              if securityLevel = AuthPriv then validate_AuthPriv usm
              else if securityLevel = AuthNoPriv then validate_AuthNoPriv usm
              else if securityLevel = NoAuthNoPriv then validate_NoAuthNoPriv usm
              else Some SecurityLevelRequired)
         | _ \<Rightarrow> Some SecurityParametersNotPopulated))"

section \<open>buildPacket3\<close>

text \<open>\<open>binary.BigEndian.PutUint32\<close> and \<open>PutUint64\<close>: the bytes of a value, most significant first.\<close>

definition be32 :: "32 word \<Rightarrow> bytes" where
  "be32 v = [ucast (drop_bit 24 v), ucast (drop_bit 16 v), ucast (drop_bit 8 v), ucast v]"

definition be64 :: "64 word \<Rightarrow> bytes" where
  "be64 v = [ucast (drop_bit 56 v), ucast (drop_bit 48 v), ucast (drop_bit 40 v),
             ucast (drop_bit 32 v), ucast (drop_bit 24 v), ucast (drop_bit 16 v),
             ucast (drop_bit 8 v), ucast v]"

text \<open>
  The first \<open>switch\<close> of buildPacket3, on the connection's privacy protocol:
  \<open>atomic.AddUint64\<close> or \<open>atomic.AddUint32\<close> adds 1 to the counter, wrapping around, and
  returns the new value. The result is the parameters with the counter advanced and the
  two local variables \<open>newPktLocalAESSalt\<close> and \<open>newPktLocalDESSalt\<close>, which stay 0 when
  their case is not taken.
\<close>

definition next_salts :: "UsmSecurityParameters \<Rightarrow> UsmSecurityParameters \<times> 64 word \<times> 32 word" where
  "next_salts baseSecParams =
     (if PrivacyProtocol baseSecParams = AES then
        (baseSecParams\<lparr>localAESSalt := localAESSalt baseSecParams + 1\<rparr>,
         localAESSalt baseSecParams + 1, 0)
      else if PrivacyProtocol baseSecParams = DES then
        (baseSecParams\<lparr>localDESSalt := localDESSalt baseSecParams + 1\<rparr>,
         0, localDESSalt baseSecParams + 1)
      else (baseSecParams, 0, 0))"

text \<open>The second \<open>switch\<close>, on the packet's privacy protocol: the 8 bytes of the salt.\<close>

definition packet_salt :: "UsmSecurityParameters \<Rightarrow> 64 word \<Rightarrow> 32 word \<Rightarrow> bytes" where
  "packet_salt pktSecParams newPktLocalAESSalt newPktLocalDESSalt =
     (if PrivacyProtocol pktSecParams = AES then be64 newPktLocalAESSalt
      else be32 (AuthoritativeEngineBoots pktSecParams) @ be32 newPktLocalDESSalt)"

text \<open>
  buildPacket3 changes the connection (its \<open>msgID\<close> and the salt counters of its security
  parameters) and the packet; the connection is returned with the outcome, since it stays
  changed when the function returns an error. The assignments to the parameters \<open>msgID\<close>
  and \<open>allMsgIDs\<close> are local to the function. The security parameters of the connection
  and of the packet are taken to be two objects. The second test \<open>!ok || baseSecParams ==
  nil\<close> tests \<open>baseSecParams\<close> again, so a nil \<open>*UsmSecurityParameters\<close> in the packet is
  dereferenced.
\<close>

definition buildPacket3 ::
  "GoSNMP \<Rightarrow> 32 word \<Rightarrow> 32 word list \<Rightarrow> SnmpPacket \<Rightarrow> GoSNMP \<times> SnmpPacket result" where
  "buildPacket3 x msgID allMsgIDs packetOut =
     (let x1 = x\<lparr>x_msgID := x_msgID x + 1\<rparr> in
      if AuthNoPriv < x_MsgFlags x AND AuthPriv \<and> x_SecurityModel x = UserSecurityModel then
        (case x_SecurityParameters x of
           Usm baseSecParams \<Rightarrow>
             (case next_salts baseSecParams of
                (baseSecParams', newPktLocalAESSalt, newPktLocalDESSalt) \<Rightarrow>
                  let x2 = x1\<lparr>x_SecurityParameters := Usm baseSecParams'\<rparr> in
                  if Version packetOut = Version3 \<and> SecurityModel packetOut = UserSecurityModel \<and>
                     AuthNoPriv < MsgFlags packetOut AND AuthPriv
                  then
                    (case SecurityParameters packetOut of
                       NilInterface \<Rightarrow> (x2, Err PacketOutNotUsm)
                     | NilUsm \<Rightarrow> (x2, Panic NilPointerDereference)
                     | Usm pktSecParams \<Rightarrow>
                         (x2, Ok (packetOut\<lparr>SecurityParameters :=
                            Usm (pktSecParams\<lparr>PrivacyParameters :=
                              packet_salt pktSecParams newPktLocalAESSalt newPktLocalDESSalt\<rparr>)\<rparr>)))
                  else (x2, Ok packetOut))
         | _ \<Rightarrow> (x1, Err ConnectionNotUsm))
      else (x1, Ok packetOut))"

section \<open>Marshalling: header, security parameters, scoped PDU\<close>

text \<open>
  What \<open>parseRawField\<close> returns as an \<open>interface{}\<close>: an \<open>int\<close>, a \<open>string\<close>, or a value of
  another type.
\<close>

datatype raw = RawInt int | RawString bytes | RawOther

text \<open>
  The functions and the constant of this repository that v3.go calls and that are declared
  in other files are parameters of the model: \<open>marshalLength\<close>, \<open>marshalUvarInt\<close>,
  \<open>rxBufSize\<close>, the method \<open>marshalPDU\<close> of the packet, \<open>parseLength\<close> and the method
  \<open>parseRawField\<close>. A Go \<open>int\<close> is an integer here; lengths are natural numbers.
\<close>

record 'pdu helpers =
  marshalLength :: "nat \<Rightarrow> bytes result"
  marshalUvarInt :: "32 word \<Rightarrow> bytes"
  rxBufSize :: "32 word"
  marshalPDU :: "SnmpPacket \<Rightarrow> 'pdu list \<Rightarrow> 32 word \<Rightarrow> bytes result"
  parseLength :: "bytes \<Rightarrow> (int \<times> int) result"
  parseRawField :: "bytes \<Rightarrow> field \<Rightarrow> (raw \<times> int) result"

text \<open>
  marshalSnmpV3Header. \<open>binary.Write\<close> of a \<open>uint32\<close> into a \<open>bytes.Buffer\<close> returns no
  error. \<open>byte(len(maxmsgsize))\<close> keeps the low 8 bits of the length.
\<close>

definition marshalSnmpV3Header :: "'pdu helpers \<Rightarrow> SnmpPacket \<Rightarrow> 32 word \<Rightarrow> bytes result" where
  "marshalSnmpV3Header h packet msgid =
     (let buf = [Integer, 4] @ be32 msgid;
          maxmsgsize = marshalUvarInt h (rxBufSize h);
          buf = buf @ [Integer, of_nat (length maxmsgsize)] @ maxmsgsize;
          buf = buf @ [OctetString, 1, MsgFlags packet];
          buf = buf @ [Integer, 1, SecurityModel packet]
      in Ok buf)"

text \<open>
  marshalSnmpV3UsmSecurityParameters returns the bytes and \<open>authParamStart\<close>, a \<open>uint32\<close>.
\<close>

definition marshalSnmpV3UsmSecurityParameters ::
  "'pdu helpers \<Rightarrow> SnmpPacket \<Rightarrow> (bytes \<times> 32 word) result" where
  "marshalSnmpV3UsmSecurityParameters h packet =
     (case SecurityParameters packet of
        Usm secParams \<Rightarrow>
          (let buf = [OctetString, of_nat (length (AuthoritativeEngineID secParams))] @
                     AuthoritativeEngineID secParams;
               msgAuthoritativeEngineBoots = marshalUvarInt h (AuthoritativeEngineBoots secParams);
               buf = buf @ [Integer, of_nat (length msgAuthoritativeEngineBoots)] @
                     msgAuthoritativeEngineBoots;
               msgAuthoritativeEngineTime = marshalUvarInt h (AuthoritativeEngineTime secParams);
               buf = buf @ [Integer, of_nat (length msgAuthoritativeEngineTime)] @
                     msgAuthoritativeEngineTime;
               buf = buf @ [OctetString, of_nat (length (UserName secParams))] @ UserName secParams;
               authParamStart = (of_nat (length buf + 2) :: 32 word);
               buf = buf @ (if 0 < MsgFlags packet AND AuthNoPriv
                            then [OctetString, 12, 0, 0, 0, 0, 0, 0, 0, 0, 0, 0, 0, 0]
                            else [OctetString, 0])
           in bind (if AuthNoPriv < MsgFlags packet AND AuthPriv
                    then bind (marshalLength h (length (PrivacyParameters secParams)))
                           (\<lambda>privlen. Ok (buf @ [OctetString] @ privlen @ PrivacyParameters secParams))
                    else Ok (buf @ [OctetString, 0]))
                (\<lambda>buf. bind (marshalLength h (length buf))
                   (\<lambda>paramLen.
                      let tmpseq = [Sequence] @ paramLen;
                          authParamStart = authParamStart + of_nat (length tmpseq);
                          tmpseq = tmpseq @ buf
                      in Ok (tmpseq, authParamStart))))
      | _ \<Rightarrow> Err PacketNotUsm)"

definition prepareSnmpV3ScopedPDU ::
  "'pdu helpers \<Rightarrow> SnmpPacket \<Rightarrow> 'pdu list \<Rightarrow> 32 word \<Rightarrow> bytes result" where
  "prepareSnmpV3ScopedPDU h packet pdus requestid =
     bind (marshalLength h (length (ContextEngineID packet))) (\<lambda>idlen.
       let buf = ([OctetString] @ idlen) @ ContextEngineID packet in
       bind (marshalLength h (length (ContextName packet))) (\<lambda>namelen.
         let buf = buf @ ([OctetString] @ namelen) @ ContextName packet in
         bind (marshalPDU h packet pdus requestid) (\<lambda>data. Ok (buf @ data))))"

text \<open>
  The AES initialisation vector: \<open>var iv [16]byte\<close>, the boots and the time written big
  endian, and \<open>copy(iv[8:], PrivacyParameters)\<close>, which moves at most 8 bytes and leaves
  the rest 0.
\<close>

definition aes_iv :: "UsmSecurityParameters \<Rightarrow> bytes" where
  "aes_iv secParams =
     be32 (AuthoritativeEngineBoots secParams) @ be32 (AuthoritativeEngineTime secParams) @
     take 8 (PrivacyParameters secParams @ replicate 8 0)"

text \<open>
  The DES initialisation vector: \<open>preiv := privkey[8:]\<close> panics on a key shorter than 8
  bytes, and the loop \<open>iv[i] = preiv[i] ^ PrivacyParameters[i]\<close> for \<open>i < 8\<close> panics when
  either has fewer than 8 bytes.
\<close>

definition des_iv :: "bytes \<Rightarrow> bytes \<Rightarrow> bytes result" where
  "des_iv privkey privacyParameters =
     (if length privkey < 8 then Panic SliceBoundsOutOfRange
      else
        let preiv = drop 8 privkey in
        if length preiv < 8 \<or> length privacyParameters < 8 then Panic IndexOutOfRange
        else Ok (map (\<lambda>i. preiv ! i XOR privacyParameters ! i) [0 ..< 8]))"

text \<open>
  The encryption of marshalSnmpV3ScopedPDU, the \<open>switch\<close> on the privacy protocol.
  \<open>aes.NewCipher\<close> and \<open>des.NewCipher\<close> return no error on keys of 16 and 8 bytes. The DES
  case appends \<open>des.BlockSize - len(scopedPdu) % des.BlockSize\<close> zero bytes.
\<close>

definition encrypt_scopedPdu ::
  "'pdu helpers \<Rightarrow> primitives \<Rightarrow> UsmSecurityParameters \<Rightarrow> bytes \<Rightarrow> bytes \<Rightarrow> bytes result" where
  "encrypt_scopedPdu h c secParams privkey scopedPdu =
     (if PrivacyProtocol secParams = AES then
        (let iv = aes_iv secParams in
         bind (prefix_slice privkey 16) (\<lambda>key.
           let ciphertext = aes_cfb_encrypt c key iv scopedPdu in
           bind (marshalLength h (length ciphertext)) (\<lambda>pduLen.
             Ok (([OctetString] @ pduLen) @ ciphertext))))
      else
        bind (des_iv privkey (PrivacyParameters secParams)) (\<lambda>iv.
          bind (prefix_slice privkey 8) (\<lambda>key.
            let pad = replicate (8 - length scopedPdu mod 8) 0;
                scopedPdu = scopedPdu @ pad;
                ciphertext = des_cbc_encrypt c key iv scopedPdu
            in bind (marshalLength h (length ciphertext)) (\<lambda>pduLen.
                 Ok (([OctetString] @ pduLen) @ ciphertext)))))"

definition marshalSnmpV3ScopedPDU ::
  "'pdu helpers \<Rightarrow> primitives \<Rightarrow> SnmpPacket \<Rightarrow> 'pdu list \<Rightarrow> 32 word \<Rightarrow> bytes result" where
  "marshalSnmpV3ScopedPDU h c packet pdus requestid =
     bind (prepareSnmpV3ScopedPDU h packet pdus requestid) (\<lambda>scopedPdu.
       bind (marshalLength h (length scopedPdu)) (\<lambda>pduLen.
         let b = [Sequence] @ pduLen;
             scopedPdu = b @ scopedPdu
         in if AuthNoPriv < MsgFlags packet AND AuthPriv \<and>
               SecurityModel packet = UserSecurityModel
            then
              (case SecurityParameters packet of
                 Usm secParams \<Rightarrow>
                   bind (genlocalkey c (AuthenticationProtocol secParams)
                           (PrivacyPassphrase secParams) (AuthoritativeEngineID secParams))
                     (\<lambda>privkey. encrypt_scopedPdu h c secParams privkey scopedPdu)
               | _ \<Rightarrow> Err ScopedPacketNotUsm)
            else Ok scopedPdu))"

text \<open>
  prepV3pPDU appends to the buffer it is given and returns it with \<open>authParamStart\<close>; on an
  error it returns an empty buffer and 0.
\<close>

definition prepV3pPDU ::
  "'pdu helpers \<Rightarrow> primitives \<Rightarrow> SnmpPacket \<Rightarrow> 32 word \<Rightarrow> bytes \<Rightarrow> 'pdu list \<Rightarrow> 32 word \<Rightarrow>
   (bytes \<times> 32 word) result" where
  "prepV3pPDU h c packet msgid buf pdus requestid =
     bind (marshalSnmpV3Header h packet msgid) (\<lambda>header.
       let buf = buf @ [Sequence, of_nat (length header)] @ header in
       bind (if SecurityModel packet = UserSecurityModel
             then marshalSnmpV3UsmSecurityParameters h packet
             else Ok ([], 0))
         (\<lambda>(securityParameters, authParamStart).
            let buf = buf @ [OctetString] in
            bind (marshalLength h (length securityParameters)) (\<lambda>secParamLen.
              let buf = buf @ secParamLen;
                  authParamStart = authParamStart + of_nat (length buf);
                  buf = buf @ securityParameters
              in bind (marshalSnmpV3ScopedPDU h c packet pdus requestid) (\<lambda>scopedPdu.
                   Ok (buf @ scopedPdu, authParamStart)))))"

text \<open>
  The 12 bytes of a buffer from index \<open>n\<close> on lie inside the buffer and are zero: the slot
  reserved for the authentication parameters.
\<close>

definition zero_slot :: "bytes \<Rightarrow> nat \<Rightarrow> bool" where
  "zero_slot buf n \<longleftrightarrow> n + 12 \<le> length buf \<and> take 12 (drop n buf) = replicate 12 0"


text \<open>
  What Go documents for the two cipher modes: \<open>XORKeyStream\<close> and \<open>CryptBlocks\<close> write as
  many bytes as they read; decrypting with the key and initialisation vector of the
  encryption gives the plaintext back, for CBC on whole blocks of 8 bytes.
\<close>

definition cipher_lengths :: "primitives \<Rightarrow> bool" where
  "cipher_lengths c \<longleftrightarrow>
     (\<forall>k iv p. length (aes_cfb_encrypt c k iv p) = length p) \<and>
     (\<forall>k iv p. length (aes_cfb_decrypt c k iv p) = length p) \<and>
     (\<forall>k iv p. length (des_cbc_encrypt c k iv p) = length p) \<and>
     (\<forall>k iv p. length (des_cbc_decrypt c k iv p) = length p)"

definition cipher_inverses :: "primitives \<Rightarrow> bool" where
  "cipher_inverses c \<longleftrightarrow>
     (\<forall>k iv p. aes_cfb_decrypt c k iv (aes_cfb_encrypt c k iv p) = p) \<and>
     (\<forall>k iv p. length p mod 8 = 0 \<longrightarrow> des_cbc_decrypt c k iv (des_cbc_encrypt c k iv p) = p)"

section \<open>Discovery: negotiateInitialSecurityParameters and the stored parameters\<close>

text \<open>
  storeSecurityParameters changes the connection; every error is returned before the first
  assignment, so the outcome is the changed connection or the error.
  \<open>connSecParams, _ := x.SecurityParameters.(*UsmSecurityParameters)\<close> is nil for the nil
  interface and for the nil pointer, and the three assignments are skipped then.
\<close>

definition storeSecurityParameters :: "GoSNMP \<Rightarrow> SnmpPacket \<Rightarrow> GoSNMP result" where
  "storeSecurityParameters x result =
     (if x_Version x \<noteq> Version3 \<or> Version result \<noteq> Version3 then Err StoreNotVersion3
      else if x_SecurityModel x \<noteq> SecurityModel result then Err ModelNotAsExtractedFromPacket
      else if SecurityModel result = UserSecurityModel then
        (case SecurityParameters result of
           Usm newSecParams \<Rightarrow>
             (let x1 = (case x_SecurityParameters x of
                          Usm connSecParams \<Rightarrow>
                            x\<lparr>x_SecurityParameters := Usm (connSecParams
                               \<lparr>AuthoritativeEngineID := AuthoritativeEngineID newSecParams,
                                AuthoritativeEngineBoots := AuthoritativeEngineBoots newSecParams,
                                AuthoritativeEngineTime := AuthoritativeEngineTime newSecParams\<rparr>)\<rparr>
                        | _ \<Rightarrow> x)
              in if x_ContextEngineID x1 = []
                 then Ok (x1\<lparr>x_ContextEngineID := AuthoritativeEngineID newSecParams\<rparr>)
                 else Ok x1)
         | _ \<Rightarrow> Err ResultNotUsm)
      else Ok x)"

text \<open>updatePktSecurityParameters changes the packet, after its last error.\<close>

definition updatePktSecurityParameters :: "GoSNMP \<Rightarrow> SnmpPacket \<Rightarrow> SnmpPacket result" where
  "updatePktSecurityParameters x packetOut =
     (if x_Version x \<noteq> Version3 \<or> Version packetOut \<noteq> Version3 then Err UpdateNotVersion3
      else if x_SecurityModel x \<noteq> SecurityModel packetOut then Err ModelNotAsExtractedFromPacket
      else
        bind (if x_SecurityModel x = UserSecurityModel then
                (case x_SecurityParameters x of
                   Usm connectionSecParams \<Rightarrow>
                     (case SecurityParameters packetOut of
                        Usm pktSecParams \<Rightarrow>
                          Ok (packetOut\<lparr>SecurityParameters := Usm (pktSecParams
                                \<lparr>AuthoritativeEngineID := AuthoritativeEngineID connectionSecParams,
                                 AuthoritativeEngineBoots := AuthoritativeEngineBoots connectionSecParams,
                                 AuthoritativeEngineTime := AuthoritativeEngineTime connectionSecParams\<rparr>)\<rparr>)
                      | _ \<Rightarrow> Err UpdatePacketOutNotUsm)
                 | _ \<Rightarrow> Err UpdateConnectionNotUsm)
              else Ok packetOut)
          (\<lambda>packetOut.
             if ContextEngineID packetOut = []
             then Ok (packetOut\<lparr>ContextEngineID := x_ContextEngineID x\<rparr>)
             else Ok packetOut))"

text \<open>
  The packet negotiateInitialSecurityParameters sends to discover the engine:
  \<open>&UsmSecurityParameters{}\<close> has every field zero, and so has every field of the packet
  that the literal does not name.
\<close>

definition blankUsm :: UsmSecurityParameters where
  "blankUsm = \<lparr>AuthoritativeEngineID = [], AuthoritativeEngineBoots = 0,
     AuthoritativeEngineTime = 0, UserName = [], AuthenticationParameters = [],
     PrivacyParameters = [], AuthenticationProtocol = 0, PrivacyProtocol = 0,
     AuthenticationPassphrase = [], PrivacyPassphrase = [], localDESSalt = 0, localAESSalt = 0\<rparr>"

definition blankPacket :: SnmpPacket where
  "blankPacket = \<lparr>Version = Version3, MsgFlags = Reportable OR NoAuthNoPriv,
     SecurityModel = UserSecurityModel, SecurityParameters = Usm blankUsm,
     ContextEngineID = [], ContextName = [], PDUType = GetRequest, MsgID = 0\<rparr>"

text \<open>
  The method \<open>sendOneRequest\<close> is declared in another file: it is a parameter, a function of
  the connection, the PDUs, the packet and \<open>wait\<close> that returns the connection as it has
  left it and a packet or an error. negotiateInitialSecurityParameters changes the
  connection and the packet; the connection is returned with the outcome.
\<close>

definition negotiateInitialSecurityParameters ::
  "(GoSNMP \<Rightarrow> 'pdu list \<Rightarrow> SnmpPacket \<Rightarrow> bool \<Rightarrow> GoSNMP \<times> SnmpPacket result) \<Rightarrow>
   GoSNMP \<Rightarrow> SnmpPacket \<Rightarrow> bool \<Rightarrow> GoSNMP \<times> SnmpPacket result" where
  "negotiateInitialSecurityParameters sendOneRequest x packetOut wait =
     (if x_Version x \<noteq> Version3 \<or> Version packetOut \<noteq> Version3 then (x, Err NegotiateNotVersion3)
      else if x_SecurityModel x \<noteq> SecurityModel packetOut then (x, Err ModelNotAsDefinedInPacket)
      else if SecurityModel packetOut = UserSecurityModel then
        (case SecurityParameters packetOut of
           Usm secParams \<Rightarrow>
             if AuthoritativeEngineID secParams = [] then
               (case sendOneRequest x [] blankPacket wait of
                  (x1, Ok result) \<Rightarrow>
                    (case storeSecurityParameters x1 result of
                       Ok x2 \<Rightarrow> (x2, updatePktSecurityParameters x2 packetOut)
                     | Err e \<Rightarrow> (x1, Err e)
                     | Panic p \<Rightarrow> (x1, Panic p))
                | (x1, Err e) \<Rightarrow> (x1, Err e)
                | (x1, Panic p) \<Rightarrow> (x1, Panic p))
             else (x, Ok packetOut)
         | _ \<Rightarrow> (x, Err PacketOutNotUsm))
      else (x, Ok packetOut))"

section \<open>Parsing: extractV3Packet\<close>

text \<open>
  Reads and re-slicings of the packet at a cursor, a Go \<open>int\<close>: \<open>packet[cursor]\<close> and
  \<open>packet[cursor:]\<close> are checked against the length, \<open>packet[:n]\<close> and \<open>packet[lo:hi]\<close>
  against the capacity. A negative index panics.
\<close>

definition index_at :: "slice \<Rightarrow> int \<Rightarrow> byte result" where
  "index_at s i =
     (if 0 \<le> i \<and> i < int (length (elems s)) then Ok (elems s ! nat i)
      else Panic IndexOutOfRange)"

definition slice_from :: "slice \<Rightarrow> int \<Rightarrow> bytes result" where
  "slice_from s i =
     (if 0 \<le> i \<and> i \<le> int (length (elems s)) then Ok (drop (nat i) (elems s))
      else Panic SliceBoundsOutOfRange)"

definition slice_upto :: "slice \<Rightarrow> int \<Rightarrow> slice result" where
  "slice_upto s n =
     (if 0 \<le> n \<and> n \<le> int (length (array s))
      then Ok \<lparr>elems = take (nat n) (array s), room = drop (nat n) (array s)\<rparr>
      else Panic SliceBoundsOutOfRange)"

text \<open>\<open>copy(packet[lo:hi], src)\<close> and \<open>copy(packet[lo:], src)\<close> with integer bounds.\<close>

definition copy_range :: "slice \<Rightarrow> int \<Rightarrow> int \<Rightarrow> bytes \<Rightarrow> slice result" where
  "copy_range s lo hi src =
     (if lo < 0 \<or> hi < 0 then Panic SliceBoundsOutOfRange else copy_to s (nat lo) (nat hi) src)"

definition copy_from :: "slice \<Rightarrow> int \<Rightarrow> bytes \<Rightarrow> slice result" where
  "copy_from s lo src =
     (if lo < 0 \<or> int (length (elems s)) < lo then Panic SliceBoundsOutOfRange
      else copy_to s (nat lo) (length (elems s)) src)"

text \<open>
  \<open>parseLength(packet[cursor:])\<close>, and \<open>x.parseRawField(packet[cursor:], name)\<close> with the
  error wrapped as extractV3Packet wraps it.
\<close>

definition length_at :: "'pdu helpers \<Rightarrow> slice \<Rightarrow> int \<Rightarrow> (int \<times> int) result" where
  "length_at h packet cursor = bind (slice_from packet cursor) (parseLength h)"

definition read_field :: "'pdu helpers \<Rightarrow> field \<Rightarrow> slice \<Rightarrow> int \<Rightarrow> (raw \<times> int) result" where
  "read_field h f packet cursor =
     bind (slice_from packet cursor) (\<lambda>bs.
       case parseRawField h bs f of
         Ok r \<Rightarrow> Ok r
       | Err e \<Rightarrow> Err (ErrorParsing f e)
       | Panic p \<Rightarrow> Panic p)"

text \<open>
  The type assertions \<open>raw.(int)\<close> and \<open>raw.(string)\<close> followed by an assignment: a value
  of another type leaves the field as it is. \<open>uint32(i)\<close> and the conversion to a \<open>uint8\<close>
  type keep the low bits.
\<close>

definition string_or :: "raw \<Rightarrow> bytes \<Rightarrow> bytes" where
  "string_or r old = (case r of RawString s \<Rightarrow> s | _ \<Rightarrow> old)"

definition uint32_or :: "raw \<Rightarrow> 32 word \<Rightarrow> 32 word" where
  "uint32_or r old = (case r of RawInt i \<Rightarrow> word_of_int i | _ \<Rightarrow> old)"

definition uint8_or :: "raw \<Rightarrow> byte \<Rightarrow> byte" where
  "uint8_or r old = (case r of RawInt i \<Rightarrow> word_of_int i | _ \<Rightarrow> old)"

text \<open>\<open>response.MsgFlags = SnmpV3MsgFlags(MsgFlags[0])\<close> panics on the empty string.\<close>

definition first_byte_or :: "raw \<Rightarrow> byte \<Rightarrow> byte result" where
  "first_byte_or r old =
     (case r of
        RawString s \<Rightarrow> (case s of [] \<Rightarrow> Panic IndexOutOfRange | b # _ \<Rightarrow> Ok b)
      | _ \<Rightarrow> Ok old)"

text \<open>
  The header of the message, up to the tag and length of the security parameters: the new
  cursor and the response with its message id, flags and security model.
\<close>

definition extract_header ::
  "'pdu helpers \<Rightarrow> slice \<Rightarrow> int \<Rightarrow> SnmpPacket \<Rightarrow> (int \<times> SnmpPacket) result" where
  "extract_header h packet cursor response =
     bind (index_at packet cursor) (\<lambda>t.
       if t \<noteq> Sequence then Err InvalidHeader
       else
         bind (length_at h packet cursor) (\<lambda>(_, cursorTmp).
           let cursor = cursor + cursorTmp in
           bind (read_field h F_msgID packet cursor) (\<lambda>(rawMsgID, count).
             let cursor = cursor + count;
                 response = response\<lparr>MsgID := uint32_or rawMsgID (MsgID response)\<rparr>
             in bind (read_field h F_maxMsgSize packet cursor) (\<lambda>(_, count).
                  let cursor = cursor + count in
                  bind (read_field h F_msgFlags packet cursor) (\<lambda>(rawMsgFlags, count).
                    let cursor = cursor + count in
                    bind (first_byte_or rawMsgFlags (MsgFlags response)) (\<lambda>flags.
                      let response = response\<lparr>MsgFlags := flags\<rparr> in
                      bind (read_field h F_msgSecurityModel packet cursor) (\<lambda>(rawSecModel, count).
                        let cursor = cursor + count;
                            response = response\<lparr>SecurityModel :=
                              uint8_or rawSecModel (SecurityModel response)\<rparr>
                        in bind (index_at packet cursor) (\<lambda>t.
                             if t \<noteq> OctetString then Err InvalidSecurityParametersTag
                             else
                               bind (length_at h packet cursor) (\<lambda>(_, cursorTmp).
                                 Ok (cursor + cursorTmp, response))))))))))"

text \<open>
  The authentication of an incoming packet: with the Auth flag set, the parameters must
  have taken 14 bytes; the 12 bytes behind their tag and length are zeroed in the packet,
  and isAuthentic decides.
\<close>

definition check_authentic ::
  "primitives \<Rightarrow> slice \<Rightarrow> int \<Rightarrow> int \<Rightarrow> byte \<Rightarrow> UsmSecurityParameters \<Rightarrow> bytes \<Rightarrow> slice result" where
  "check_authentic c packet cursor count OrigMsgFlags secParameters OrigAuthEngineID =
     (if 0 < OrigMsgFlags AND AuthNoPriv then
        (if count \<noteq> 14 then Err AuthenticationParametersWrongSize
         else
           bind (copy_range packet (cursor + 2) (cursor + 14) (replicate 12 0)) (\<lambda>packet.
             bind (isAuthentic c (elems packet) (AuthenticationParameters secParameters)
                     (AuthenticationProtocol secParameters)
                     (AuthenticationPassphrase secParameters) OrigAuthEngineID)
               (\<lambda>authentic. if \<not> authentic then Err NotAuthentic else Ok packet)))
      else Ok packet)"

text \<open>
  The parameters of the User Security Model, from their \<open>Sequence\<close> tag to the
  authentication parameters: the cursor in front of the authentication parameters, the
  number of bytes \<open>parseRawField\<close> reports for them, and the security parameters with the
  engine id, boots, time, user name and authentication parameters that were read.
\<close>

definition usm_fields ::
  "'pdu helpers \<Rightarrow> slice \<Rightarrow> int \<Rightarrow> UsmSecurityParameters \<Rightarrow>
   (int \<times> int \<times> UsmSecurityParameters) result" where
  "usm_fields h packet cursor secParameters =
     bind (index_at packet cursor) (\<lambda>t.
       if t \<noteq> Sequence then Err UsmParametersNotSequence
       else
         bind (length_at h packet cursor) (\<lambda>(_, cursorTmp).
           let cursor = cursor + cursorTmp in
           bind (read_field h F_msgAuthoritativeEngineID packet cursor) (\<lambda>(r, count).
             let cursor = cursor + count;
                 secParameters = secParameters\<lparr>AuthoritativeEngineID :=
                   string_or r (AuthoritativeEngineID secParameters)\<rparr>
             in bind (read_field h F_msgAuthoritativeEngineBoots packet cursor) (\<lambda>(r, count).
               let cursor = cursor + count;
                   secParameters = secParameters\<lparr>AuthoritativeEngineBoots :=
                     uint32_or r (AuthoritativeEngineBoots secParameters)\<rparr>
               in bind (read_field h F_msgAuthoritativeEngineTime packet cursor) (\<lambda>(r, count).
                 let cursor = cursor + count;
                     secParameters = secParameters\<lparr>AuthoritativeEngineTime :=
                       uint32_or r (AuthoritativeEngineTime secParameters)\<rparr>
                 in bind (read_field h F_msgUserName packet cursor) (\<lambda>(r, count).
                   let cursor = cursor + count;
                       secParameters = secParameters\<lparr>UserName :=
                         string_or r (UserName secParameters)\<rparr>
                   in bind (read_field h F_msgAuthenticationParameters packet cursor) (\<lambda>(r, count).
                     Ok (cursor, count,
                         secParameters\<lparr>AuthenticationParameters :=
                           string_or r (AuthenticationParameters secParameters)\<rparr>))))))))"

text \<open>The privacy parameters, read behind the authentication parameters.\<close>

definition usm_privacy ::
  "'pdu helpers \<Rightarrow> slice \<Rightarrow> int \<Rightarrow> UsmSecurityParameters \<Rightarrow> (int \<times> UsmSecurityParameters) result" where
  "usm_privacy h packet cursor secParameters =
     bind (read_field h F_msgPrivacyParameters packet cursor) (\<lambda>(r, count).
       Ok (cursor + count,
           secParameters\<lparr>PrivacyParameters := string_or r (PrivacyParameters secParameters)\<rparr>))"

text \<open>
  The block \<open>if response.SecurityModel == UserSecurityModel\<close>. \<open>secParameters\<close> points
  into the response; the response is returned with the parameters as they are at the end.
\<close>

definition extract_usm ::
  "'pdu helpers \<Rightarrow> primitives \<Rightarrow> slice \<Rightarrow> int \<Rightarrow> SnmpPacket \<Rightarrow> bytes \<Rightarrow>
   (slice \<times> int \<times> SnmpPacket) result" where
  "extract_usm h c packet cursor response OrigAuthEngineID =
     (case SecurityParameters response of
        Usm secParameters \<Rightarrow>
          bind (usm_fields h packet cursor secParameters) (\<lambda>(cursor, count, secParameters).
            bind (check_authentic c packet cursor count (MsgFlags response) secParameters
                    OrigAuthEngineID) (\<lambda>packet.
              bind (usm_privacy h packet (cursor + count) secParameters) (\<lambda>(cursor, secParameters).
                Ok (packet, cursor, response\<lparr>SecurityParameters := Usm secParameters\<rparr>))))
      | _ \<Rightarrow> Err ConnectionNotUsm)"

text \<open>
  The decryption of the \<open>case OctetString\<close>: the ciphertext is \<open>packet[cursorTmp:]\<close>, the
  plaintext is copied to \<open>packet[cursor:]\<close> and the packet cut behind it.
\<close>

definition decrypt_scopedPdu ::
  "primitives \<Rightarrow> UsmSecurityParameters \<Rightarrow> bytes \<Rightarrow> slice \<Rightarrow> int \<Rightarrow> int \<Rightarrow> slice result" where
  "decrypt_scopedPdu c secParams privkey packet cursor cursorTmp =
     (if PrivacyProtocol secParams = AES then
        (let iv = aes_iv secParams in
         bind (prefix_slice privkey 16) (\<lambda>key.
           bind (slice_from packet cursorTmp) (\<lambda>ciphertext.
             let plaintext = aes_cfb_decrypt c key iv ciphertext in
             bind (copy_from packet cursor plaintext) (\<lambda>packet.
               slice_upto packet (cursor + int (length plaintext))))))
      else
        bind (slice_from packet cursorTmp) (\<lambda>ciphertext.
          if length ciphertext mod 8 \<noteq> 0 then Err NotMultipleOfBlockSize
          else
            bind (des_iv privkey (PrivacyParameters secParams)) (\<lambda>iv.
              bind (prefix_slice privkey 8) (\<lambda>key.
                let plaintext = des_cbc_decrypt c key iv ciphertext in
                bind (copy_from packet cursor plaintext) (\<lambda>packet.
                  slice_upto packet (cursor + int (length plaintext)))))))"

text \<open>The \<open>case OctetString\<close> of the last \<open>switch\<close>, up to its \<open>fallthrough\<close>.\<close>

definition open_scopedPdu ::
  "'pdu helpers \<Rightarrow> primitives \<Rightarrow> slice \<Rightarrow> int \<Rightarrow> SnmpPacket \<Rightarrow> slice result" where
  "open_scopedPdu h c packet cursor response =
     bind (length_at h packet cursor) (\<lambda>(_, cursorTmp).
       let cursorTmp = cursorTmp + cursor in
       if SecurityModel response = UserSecurityModel then
         (case SecurityParameters response of
            Usm secParams \<Rightarrow>
              bind (genlocalkey c (AuthenticationProtocol secParams)
                      (PrivacyPassphrase secParams) (AuthoritativeEngineID secParams))
                (\<lambda>privkey. decrypt_scopedPdu c secParams privkey packet cursor cursorTmp)
          | _ \<Rightarrow> Err ResponseNotUsm)
       else Ok packet)"

text \<open>
  The \<open>case Sequence\<close>: the packet is cut at the length of the scoped PDU, which drops the
  padding, and the cursor moves behind the tag and length.
\<close>

definition truncate_scopedPdu :: "'pdu helpers \<Rightarrow> slice \<Rightarrow> int \<Rightarrow> (slice \<times> int) result" where
  "truncate_scopedPdu h packet cursor =
     bind (length_at h packet cursor) (\<lambda>(tlength, cursorTmp).
       bind (slice_upto packet (cursor + tlength)) (\<lambda>packet. Ok (packet, cursor + cursorTmp)))"

definition read_context ::
  "'pdu helpers \<Rightarrow> slice \<Rightarrow> int \<Rightarrow> SnmpPacket \<Rightarrow> (slice \<times> int \<times> SnmpPacket) result" where
  "read_context h packet cursor response =
     bind (read_field h F_contextEngineID packet cursor) (\<lambda>(r, count).
       let cursor = cursor + count;
           response = response\<lparr>ContextEngineID := string_or r (ContextEngineID response)\<rparr>
       in bind (read_field h F_contextName packet cursor) (\<lambda>(r, count).
            let cursor = cursor + count;
                response = response\<lparr>ContextName := string_or r (ContextName response)\<rparr>
            in Ok (packet, cursor, response)))"

definition extract_scopedPdu ::
  "'pdu helpers \<Rightarrow> primitives \<Rightarrow> slice \<Rightarrow> int \<Rightarrow> SnmpPacket \<Rightarrow>
   (slice \<times> int \<times> SnmpPacket) result" where
  "extract_scopedPdu h c packet cursor response =
     bind (index_at packet cursor) (\<lambda>t.
       if t = OctetString then
         bind (open_scopedPdu h c packet cursor response) (\<lambda>packet.
           bind (truncate_scopedPdu h packet cursor) (\<lambda>(packet, cursor).
             read_context h packet cursor response))
       else if t = Sequence then
         bind (truncate_scopedPdu h packet cursor) (\<lambda>(packet, cursor).
           read_context h packet cursor response)
       else Err ErrorParsingScopedPDU)"

text \<open>
  extractV3Packet changes the bytes of the packet and the response in place and returns
  the packet, re-sliced, and the cursor; the response is returned with them. What it has
  changed by the time it returns an error is not part of the outcome.
\<close>

definition extractV3Packet ::
  "'pdu helpers \<Rightarrow> primitives \<Rightarrow> slice \<Rightarrow> int \<Rightarrow> SnmpPacket \<Rightarrow> bytes \<Rightarrow>
   (slice \<times> int \<times> SnmpPacket) result" where
  "extractV3Packet h c packet cursor response OrigAuthEngineID =
     bind (extract_header h packet cursor response) (\<lambda>(cursor, response).
       bind (if SecurityModel response = UserSecurityModel
             then extract_usm h c packet cursor response OrigAuthEngineID
             else Ok (packet, cursor, response))
         (\<lambda>(packet, cursor, response). extract_scopedPdu h c packet cursor response))"

text \<open>
  What the file of the helpers promises of the two length functions: \<open>parseLength\<close>, on a
  tag, the length bytes \<open>marshalLength\<close> gives for \<open>n\<close> and at least \<open>n\<close> more bytes,
  returns the length of tag, length bytes and \<open>n\<close> content bytes, and the length of the
  tag and length bytes.
\<close>

definition ber_lengths :: "'pdu helpers \<Rightarrow> bool" where
  "ber_lengths h \<longleftrightarrow>
     (\<forall>n l tag rest. marshalLength h n = Ok l \<and> n \<le> length rest \<longrightarrow>
        parseLength h ([tag] @ l @ rest) =
          Ok (int (1 + length l + n), int (1 + length l)))"

section \<open>Concrete inputs\<close>

text \<open>
  Stand-ins for the digests and ciphers, used to apply the theorems to concrete inputs:
  digests of the documented sizes and ciphers that XOR every byte with the first byte of
  the key.
\<close>

definition test_primitives :: primitives where
  "test_primitives =
     \<lparr>md5_sum = (\<lambda>x. replicate 16 (of_nat (length x))),
      sha1_sum = (\<lambda>x. replicate 20 (of_nat (length x))),
      aes_cfb_encrypt = (\<lambda>k iv p. map (\<lambda>b. b XOR hd k) p),
      aes_cfb_decrypt = (\<lambda>k iv p. map (\<lambda>b. b XOR hd k) p),
      des_cbc_encrypt = (\<lambda>k iv p. map (\<lambda>b. b XOR hd k) p),
      des_cbc_decrypt = (\<lambda>k iv p. map (\<lambda>b. b XOR hd k) p)\<rparr>"

text \<open>
  Stand-ins for the helpers, used to apply the theorems to concrete inputs: BER lengths in
  the short form and in the long form, integers in four bytes, a PDU that is its type, the
  number of its bindings and the bindings, each one byte.
\<close>

definition test_marshalLength :: "nat \<Rightarrow> bytes result" where
  "test_marshalLength n =
     (if n < 127 then Ok [of_nat n]
      else if n < 256 then Ok [0x81, of_nat n]
      else Err (Foreign 1))"

definition test_parseLength :: "bytes \<Rightarrow> (int \<times> int) result" where
  "test_parseLength bs =
     (if length bs \<le> 2 then Ok (int (length bs), int (length bs))
      else if bs ! 1 \<le> 127 then Ok (uint (bs ! 1) + 2, 2)
      else if bs ! 1 = 0x81 then Ok (uint (bs ! 2) + 3, 3)
      else Err (Foreign 2))"

definition test_parseRawField :: "bytes \<Rightarrow> field \<Rightarrow> (raw \<times> int) result" where
  "test_parseRawField bs f =
     (if bs = [] then Panic IndexOutOfRange
      else if hd bs = Integer then
        (if length bs < 2 \<or> length bs < 2 + unat (bs ! 1) then Panic SliceBoundsOutOfRange
         else Ok (RawInt (foldl (\<lambda>a b. 256 * a + uint b) 0 (take (unat (bs ! 1)) (drop 2 bs))),
                  2 + uint (bs ! 1)))
      else if hd bs = OctetString then
        bind (test_parseLength bs) (\<lambda>(l, cursor).
          if int (length bs) < l then Panic SliceBoundsOutOfRange
          else Ok (RawString (take (nat l - nat cursor) (drop (nat cursor) bs)), l))
      else Err (Foreign 3))"

definition test_helpers :: "byte helpers" where
  "test_helpers =
     \<lparr>marshalLength = test_marshalLength,
      marshalUvarInt = be32,
      rxBufSize = 65535,
      marshalPDU = (\<lambda>packet pdus requestid. Ok ([PDUType packet, of_nat (length pdus)] @ pdus)),
      parseLength = test_parseLength,
      parseRawField = test_parseRawField\<rparr>"

text \<open>A packet, its security parameters, a connection and a message buffer.\<close>

definition test_usm :: UsmSecurityParameters where
  "test_usm = \<lparr>AuthoritativeEngineID = [1], AuthoritativeEngineBoots = 1,
     AuthoritativeEngineTime = 2, UserName = [3], AuthenticationParameters = [],
     PrivacyParameters = [0, 0, 0, 1, 0, 0, 0, 5], AuthenticationProtocol = MD5, PrivacyProtocol = DES,
     AuthenticationPassphrase = [4], PrivacyPassphrase = [5], localDESSalt = 4,
     localAESSalt = 6\<rparr>"

definition test_packet :: SnmpPacket where
  "test_packet = \<lparr>Version = Version3, MsgFlags = AuthPriv, SecurityModel = UserSecurityModel,
     SecurityParameters = Usm test_usm, ContextEngineID = [], ContextName = [],
     PDUType = GetRequest, MsgID = 0\<rparr>"

definition test_conn :: GoSNMP where
  "test_conn = \<lparr>x_Version = Version3, x_MsgFlags = AuthPriv, x_SecurityModel = UserSecurityModel,
     x_SecurityParameters = Usm test_usm, x_ContextEngineID = [], x_msgID = 41\<rparr>"

definition test_msg :: slice where
  "test_msg = \<lparr>elems = replicate 14 9, room = []\<rparr>"


text \<open>
  A stand-in for \<open>sendOneRequest\<close>: it advances the message id and answers every request
  with a report of the engine 80 00 00 01 02, booted 3 times, at time 99.
\<close>

definition test_sendOneRequest :: "GoSNMP \<Rightarrow> byte list \<Rightarrow> SnmpPacket \<Rightarrow> bool \<Rightarrow> GoSNMP \<times> SnmpPacket result" where
  "test_sendOneRequest x pdus packetOut wait =
     (x\<lparr>x_msgID := x_msgID x + 1\<rparr>,
      Ok (packetOut\<lparr>PDUType := 0xa8,
            SecurityParameters := Usm (blankUsm\<lparr>AuthoritativeEngineID := [0x80, 0, 0, 1, 2],
              AuthoritativeEngineBoots := 3, AuthoritativeEngineTime := 99\<rparr>)\<rparr>))"



section \<open>Properties of key localization\<close>

lemma chunk_loop_closed:
  "password \<noteq> [] \<Longrightarrow> e \<le> 64 \<Longrightarrow>
   chunk_loop password pi e chunk =
     Ok (chunk @ map (\<lambda>j. password ! (j mod length password)) [pi ..< pi + (64 - e)],
         pi + (64 - e))"
proof (induction password pi e chunk rule: chunk_loop.induct)
  case (1 password pi e chunk)
  show ?case
  proof (cases "e < 64")
    case True
    then have eq: "pi + 1 + (64 - (e + 1)) = pi + (64 - e)" and lt: "pi < pi + (64 - e)"
      by simp_all
    have step: "[pi ..< pi + (64 - e)] = pi # [pi + 1 ..< pi + 1 + (64 - (e + 1))]"
      unfolding eq using lt by (subst upt_rec) simp
    have "chunk_loop password pi e chunk =
          chunk_loop password (pi + 1) (e + 1) (chunk @ [password ! (pi mod length password)])"
      using True "1.prems"(1) by (subst chunk_loop.simps) simp
    also have "\<dots> = Ok ((chunk @ [password ! (pi mod length password)]) @
          map (\<lambda>j. password ! (j mod length password)) [pi + 1 ..< pi + 1 + (64 - (e + 1))],
          pi + 1 + (64 - (e + 1)))"
      using True "1.prems" by (intro "1.IH") auto
    finally show ?thesis
      unfolding step eq by simp
  next
    case False
    with "1.prems" have "e = 64" by simp
    then show ?thesis
      by (subst chunk_loop.simps) simp
  qed
qed

lemma password_loop_closed:
  "password \<noteq> [] \<Longrightarrow> i = 64 * k \<Longrightarrow> k \<le> 16384 \<Longrightarrow>
   password_loop password i pi comph =
     Ok (Write comph (map (\<lambda>j. password ! (j mod length password)) [pi ..< pi + (1048576 - i)]))"
proof (induction password i pi comph arbitrary: k rule: password_loop.induct)
  case (1 password i pi comph)
  show ?case
  proof (cases "i < 1048576")
    case True
    let ?f = "\<lambda>j. password ! (j mod length password)"
    have chunk: "chunk_loop password pi 0 [] = Ok (map ?f [pi ..< pi + 64], pi + 64)"
      using chunk_loop_closed [OF "1.prems"(1), of 0 pi "[]"] by simp
    from True "1.prems" have k: "k < 16384" by simp
    have rest: "password_loop password (i + 64) (pi + 64) (Write comph (map ?f [pi ..< pi + 64])) =
          Ok (Write (Write comph (map ?f [pi ..< pi + 64]))
                (map ?f [pi + 64 ..< pi + 64 + (1048576 - (i + 64))]))"
      using True "1.prems" k
      by (intro "1.IH" [where k = "k + 1"]) (auto simp: chunk)
    have split: "[pi ..< pi + (1048576 - i)] =
          [pi ..< pi + 64] @ [pi + 64 ..< pi + 64 + (1048576 - (i + 64))]"
    proof -
      have e: "pi + 64 + (1048576 - (i + 64)) = pi + (1048576 - i)"
        using "1.prems" k by simp
      have a: "[pi ..< pi + 64 + (1048576 - (i + 64))] =
            [pi ..< pi + 64] @ [pi + 64 ..< pi + 64 + (1048576 - (i + 64))]"
        by (rule upt_add_eq_append) simp
      show ?thesis
        by (subst e [symmetric]) (rule a)
    qed
    have first: "password_loop password i pi comph =
          password_loop password (i + 64) (pi + 64) (Write comph (map ?f [pi ..< pi + 64]))"
      using True by (subst password_loop.simps) (simp add: chunk)
    show ?thesis
      unfolding first rest split by (simp add: Write_def)
  next
    case False
    then show ?thesis
      by (subst password_loop.simps) (simp add: Write_def)
  qed
qed

lemma nth_concat_replicate:
  "j < n * length xs \<Longrightarrow> concat (replicate n xs) ! j = xs ! (j mod length xs)"
proof (induction n arbitrary: j)
  case 0
  then show ?case by simp
next
  case (Suc n)
  show ?case
  proof (cases "j < length xs")
    case True
    then show ?thesis by (simp add: nth_append)
  next
    case False
    then have "j - length xs < n * length xs"
      using Suc.prems by simp
    then have "concat (replicate n xs) ! (j - length xs) = xs ! ((j - length xs) mod length xs)"
      by (rule Suc.IH)
    moreover have "(j - length xs) mod length xs = j mod length xs"
      using False by (simp add: le_mod_geq)
    ultimately show ?thesis
      using False by (simp add: nth_append)
  qed
qed

lemma cyclic_stream_nth:
  assumes "passphrase \<noteq> []"
  shows "cyclic_stream passphrase n =
         map (\<lambda>j. passphrase ! (j mod length passphrase)) [0 ..< n]"
proof (rule nth_equalityI)
  have "n \<le> n * length passphrase"
    using assms by (cases passphrase) simp_all
  then show len: "length (cyclic_stream passphrase n) =
      length (map (\<lambda>j. passphrase ! (j mod length passphrase)) [0 ..< n])"
    by (simp add: cyclic_stream_def length_concat sum_list_replicate)
  fix i
  assume "i < length (cyclic_stream passphrase n)"
  with len have i: "i < n" by simp
  from i \<open>n \<le> n * length passphrase\<close> have "i < n * length passphrase"
    by (rule less_le_trans)
  then show "cyclic_stream passphrase n ! i =
      map (\<lambda>j. passphrase ! (j mod length passphrase)) [0 ..< n] ! i"
    using i by (simp add: cyclic_stream_def nth_concat_replicate)
qed

lemma password_loop_stream:
  assumes "password \<noteq> []"
  shows "password_loop password 0 0 h = Ok (Write h (cyclic_stream password 1048576))"
  using password_loop_closed [OF assms, of 0 0 0 h]
  by (simp add: cyclic_stream_nth [OF assms])

lemma length_cyclic_stream:
  assumes "passphrase \<noteq> []"
  shows "length (cyclic_stream passphrase n) = n"
  by (simp add: cyclic_stream_nth [OF assms])

lemma md5HMAC_closed:
  assumes "password \<noteq> []"
  shows "md5HMAC c password engineID =
         Ok (md5_sum c (md5_sum c (cyclic_stream password 1048576) @ engineID @
                        md5_sum c (cyclic_stream password 1048576)))"
  by (simp add: md5HMAC_def password_loop_stream [OF assms] Write_def Sum_def md5_New_def Let_def)

lemma shaHMAC_closed:
  assumes "password \<noteq> []"
  shows "shaHMAC c password engineID =
         Ok (sha1_sum c (sha1_sum c (cyclic_stream password 1048576) @ engineID @
                         sha1_sum c (cyclic_stream password 1048576)))"
  by (simp add: shaHMAC_def password_loop_stream [OF assms] Write_def Sum_def sha1_New_def Let_def)

lemma password_loop_empty: "password_loop [] 0 0 h = Panic DivideByZero"
proof -
  have "chunk_loop [] 0 0 [] = Panic DivideByZero"
    by (subst chunk_loop.simps) simp
  then show ?thesis
    by (subst password_loop.simps) simp
qed

section \<open>Key localization returns the localized key\<close>

lemma genlocalkey_closed:
  assumes "passphrase \<noteq> []"
  shows "genlocalkey c p passphrase engineID = Ok (localize (chosen_digest c p) passphrase engineID)"
  by (simp add: genlocalkey_def md5HMAC_closed [OF assms] shaHMAC_closed [OF assms]
      localize_def chosen_digest_def Let_def)

lemma genlocalkey_empty: "genlocalkey c p [] engineID = Panic DivideByZero"
  by (simp add: genlocalkey_def md5HMAC_def shaHMAC_def password_loop_empty)

lemma length_localize:
  "digest_sizes c \<Longrightarrow>
   length (localize (chosen_digest c p) passphrase engineID) = (if p = SHA then 20 else 16)"
  by (simp add: digest_sizes_def localize_def chosen_digest_def Let_def)

lemma test_primitives_sizes: "digest_sizes test_primitives"
  by (simp add: digest_sizes_def test_primitives_def)

text \<open>
  C1. For a non-empty passphrase the loops of md5HMAC and shaHMAC build the passphrase
  repeated cyclically up to 1,048,576 bytes, 64 bytes per chunk, and write it to the chosen
  hash; the key is \<open>H(Ku || engine_id || Ku)\<close> for the digest \<open>Ku\<close> of that stream, 16 bytes
  long with MD5 and 20 bytes with SHA-1. The functions are functions of their arguments
  alone, so the same inputs give the same key.
\<close>

theorem key_localization:
  assumes "passphrase \<noteq> []" and "digest_sizes c"
  shows "length (cyclic_stream passphrase 1048576) = 1048576 \<and>
         chunk_loop passphrase pi 0 [] =
           Ok (map (\<lambda>j. passphrase ! (j mod length passphrase)) [pi ..< pi + 64], pi + 64) \<and>
         password_loop passphrase 0 0 h = Ok (Write h (cyclic_stream passphrase 1048576)) \<and>
         md5HMAC c passphrase engineID = Ok (localize (md5_sum c) passphrase engineID) \<and>
         shaHMAC c passphrase engineID = Ok (localize (sha1_sum c) passphrase engineID) \<and>
         genlocalkey c MD5 passphrase engineID = md5HMAC c passphrase engineID \<and>
         genlocalkey c SHA passphrase engineID = shaHMAC c passphrase engineID \<and>
         length (localize (md5_sum c) passphrase engineID) = 16 \<and>
         length (localize (sha1_sum c) passphrase engineID) = 20"
proof -
  have "chunk_loop passphrase pi 0 [] =
      Ok (map (\<lambda>j. passphrase ! (j mod length passphrase)) [pi ..< pi + 64], pi + 64)"
    using chunk_loop_closed [OF assms(1), of 0 pi "[]"] by simp
  moreover have "genlocalkey c MD5 passphrase engineID = md5HMAC c passphrase engineID"
    by (simp add: genlocalkey_def MD5_def SHA_def)
  moreover have "genlocalkey c SHA passphrase engineID = shaHMAC c passphrase engineID"
    by (simp add: genlocalkey_def)
  moreover have "length (localize (md5_sum c) passphrase engineID) = 16"
    and "length (localize (sha1_sum c) passphrase engineID) = 20"
    using assms(2) by (simp_all add: digest_sizes_def localize_def Let_def)
  ultimately show ?thesis
    by (simp add: length_cyclic_stream [OF assms(1)] password_loop_stream [OF assms(1)]
        md5HMAC_closed [OF assms(1)] shaHMAC_closed [OF assms(1)] localize_def Let_def)
qed

theorem key_localization_witness:
  "md5HMAC test_primitives [1, 2, 3] [7] = Ok (replicate 16 33) \<and>
   shaHMAC test_primitives [1, 2, 3] [7] = Ok (replicate 20 41)"
proof -
  have n: "[1, 2, 3] \<noteq> ([] :: bytes)"
    by simp
  from key_localization [OF n test_primitives_sizes, of 0 "md5_New test_primitives" "[7]"]
  have "md5HMAC test_primitives [1, 2, 3] [7] = Ok (localize (md5_sum test_primitives) [1, 2, 3] [7])"
    and "shaHMAC test_primitives [1, 2, 3] [7] = Ok (localize (sha1_sum test_primitives) [1, 2, 3] [7])"
    by blast+
  then show ?thesis
    by (simp add: localize_def test_primitives_def)
qed


section \<open>Properties of authenticate\<close>

lemma bind_eq_Ok: "bind r f = Ok v \<longleftrightarrow> (\<exists>a. r = Ok a \<and> f a = Ok v)"
  by (cases r) auto

lemma array_copy_to:
  assumes "copy_to s lo hi src = Ok s'"
  shows "lo \<le> hi" and "hi \<le> length (array s)"
    and "array s' = take lo (array s) @ take (min (hi - lo) (length src)) src @
                    drop (lo + min (hi - lo) (length src)) (array s)"
    and "length (elems s') = length (elems s)"
    and "length (room s') = length (room s)"
proof -
  define arr where "arr = take lo (array s) @ take (min (hi - lo) (length src)) src @
      drop (lo + min (hi - lo) (length src)) (array s)"
  from assms show lo: "lo \<le> hi" and hi: "hi \<le> length (array s)"
    by (auto simp: copy_to_def split: if_splits)
  from assms lo hi have s': "s' = \<lparr>elems = take (length (elems s)) arr,
      room = drop (length (elems s)) arr\<rparr>"
    by (auto simp: copy_to_def Let_def arr_def split: if_splits)
  then have "array s' = arr"
    by (simp add: array_def)
  then show "array s' = take lo (array s) @ take (min (hi - lo) (length src)) src @
      drop (lo + min (hi - lo) (length src)) (array s)"
    by (simp only: arr_def)
  have len: "length arr = length (array s)"
    using lo hi by (simp add: arr_def)
  have "length (elems s) \<le> length (array s)"
    by (simp add: array_def)
  with len show "length (elems s') = length (elems s)"
    unfolding s' by simp
  from len show "length (room s') = length (room s)"
    unfolding s' by (simp add: array_def)
qed

lemma copy_to_frame:
  assumes "copy_to s lo hi src = Ok s'" and "i < length (array s)" and "i < lo \<or> hi \<le> i"
  shows "array s' ! i = array s ! i"
proof -
  define n where "n = min (hi - lo) (length src)"
  note c = array_copy_to [OF assms(1)]
  have arr: "array s' = take lo (array s) @ take n src @ drop (lo + n) (array s)"
    by (simp only: c(3) n_def)
  from assms(3) show ?thesis
  proof
    assume "i < lo"
    then show ?thesis
      using c(1,2) assms(2) by (simp add: arr nth_append)
  next
    assume "hi \<le> i"
    then have i: "lo + n \<le> i"
      using c(1) by (simp add: n_def)
    have l1: "length (take lo (array s)) = lo"
      using c(1,2) by simp
    have l2: "length (take n src) = n"
      by (simp add: n_def)
    have n1: "\<not> i < lo" and n2: "\<not> i - lo < n"
      using i by arith+
    have "array s' ! i = (take n src @ drop (lo + n) (array s)) ! (i - lo)"
      by (simp only: arr nth_append l1 n1 if_False)
    also have "\<dots> = drop (lo + n) (array s) ! (i - lo - n)"
      by (simp only: nth_append l2 n2 if_False)
    also have "\<dots> = array s ! i"
      using i assms(2) by simp
    finally show ?thesis .
  qed
qed

lemma unat_add_12:
  fixes a :: "32 word"
  assumes "unat a \<le> unat (a + 12)"
  shows "unat (a + 12) = unat a + 12"
proof -
  from assms have "a \<le> a + 12"
    by (simp add: word_le_nat_alt)
  then have "unat (a + 12) = unat a + unat (12 :: 32 word)"
    by (simp add: unat_plus_simple)
  then show ?thesis by simp
qed

lemma authenticate_body_skips:
  "Version packet \<noteq> Version3 \<or> MsgFlags packet AND AuthNoPriv = 0 \<Longrightarrow>
   authenticate_body c packet msg authParamStart = Ok msg"
  by (auto simp: authenticate_body_def)

lemma authenticate_body_frame:
  assumes "authenticate_body c packet msg authParamStart = Ok msg'"
  shows "length (elems msg') = length (elems msg) \<and> length (room msg') = length (room msg) \<and>
         (\<forall>i < length (array msg).
            \<not> (unat authParamStart \<le> i \<and> i < unat authParamStart + 12) \<longrightarrow>
            array msg' ! i = array msg ! i)"
proof (cases "Version packet \<noteq> Version3 \<or> MsgFlags packet AND AuthNoPriv = 0")
  case True
  with assms have "msg' = msg"
    by (simp add: authenticate_body_skips)
  then show ?thesis by simp
next
  case False
  with assms obtain tag where
    copy: "copy_to msg (unat authParamStart) (unat (authParamStart + 12)) tag = Ok msg'"
    by (auto simp: authenticate_body_def bind_eq_Ok
        split: if_splits SnmpV3SecurityParameters.splits)
  note c = array_copy_to [OF copy]
  have hi: "unat (authParamStart + 12) = unat authParamStart + 12"
    by (rule unat_add_12) (rule c(1))
  show ?thesis
    using copy_to_frame [OF copy] c(4,5) by (auto simp: hi)
qed


lemma extend_key_short:
  "length secretKey \<le> 64 \<Longrightarrow>
   extend_key secretKey = secretKey @ replicate (64 - length secretKey) 0"
  by (simp add: extend_key_def)

lemma keyed_digest_hmac:
  assumes "length secretKey \<le> 64"
  shows "keyed_digest c p secretKey msg = hmac_rfc2104 (chosen_digest c p) secretKey msg"
  using assms
  by (simp add: keyed_digest_def hmac_rfc2104_def extend_key_short xor_pad_def new_hash_def
      chosen_digest_def md5_New_def sha1_New_def Write_def Sum_def Let_def)

lemma length_keyed_digest:
  "digest_sizes c \<Longrightarrow> length (keyed_digest c p secretKey msg) = (if p = SHA then 20 else 16)"
  by (simp add: keyed_digest_def digest_sizes_def new_hash_def md5_New_def sha1_New_def
      Write_def Sum_def Let_def)

lemma copy_to_inside:
  assumes "lo + length src \<le> length (elems s)"
  shows "copy_to s lo (lo + length src) src =
         Ok (s\<lparr>elems := take lo (elems s) @ src @ drop (lo + length src) (elems s)\<rparr>)"
  using assms by (simp add: copy_to_def array_def Let_def)

lemma authenticate_body_closed:
  assumes v: "Version packet = Version3"
    and f: "MsgFlags packet AND AuthNoPriv \<noteq> 0"
    and m: "SecurityModel packet = UserSecurityModel"
    and sp: "SecurityParameters packet = Usm secParams"
    and pw: "AuthenticationPassphrase secParams \<noteq> []"
    and sz: "digest_sizes c"
    and slot: "unat authParamStart + 12 \<le> length (elems msg)"
    and small: "length (elems msg) < 2 ^ 32"
  shows "authenticate_body c packet msg authParamStart =
         Ok (msg\<lparr>elems := take (unat authParamStart) (elems msg) @
               take 12 (hmac_rfc2104 (chosen_digest c (AuthenticationProtocol secParams))
                 (localize (chosen_digest c (AuthenticationProtocol secParams))
                    (AuthenticationPassphrase secParams) (AuthoritativeEngineID secParams))
                 (elems msg)) @
               drop (unat authParamStart + 12) (elems msg)\<rparr>)"
proof -
  let ?p = "AuthenticationProtocol secParams"
  let ?key = "localize (chosen_digest c ?p) (AuthenticationPassphrase secParams)
      (AuthoritativeEngineID secParams)"
  let ?tag = "take 12 (hmac_rfc2104 (chosen_digest c ?p) ?key (elems msg))"
  have key: "genlocalkey c ?p (AuthenticationPassphrase secParams)
      (AuthoritativeEngineID secParams) = Ok ?key"
    by (rule genlocalkey_closed [OF pw])
  have klen: "length ?key \<le> 64"
    by (simp add: length_localize [OF sz])
  have dig: "keyed_digest c ?p ?key (elems msg) = hmac_rfc2104 (chosen_digest c ?p) ?key (elems msg)"
    by (rule keyed_digest_hmac [OF klen])
  have "length (keyed_digest c ?p ?key (elems msg)) \<ge> 12"
    by (simp add: length_keyed_digest [OF sz])
  then have tag: "prefix_slice (keyed_digest c ?p ?key (elems msg)) 12 = Ok ?tag"
    and tlen: "length ?tag = 12"
    by (simp_all add: prefix_slice_def dig)
  have hi: "unat (authParamStart + 12) = unat authParamStart + 12"
  proof -
    have "unat authParamStart + unat (12 :: 32 word) < 2 ^ LENGTH(32)"
      using slot small by simp
    then have "unat (authParamStart + 12) = unat authParamStart + unat (12 :: 32 word)"
      by (simp only: unat_add_lem)
    then show ?thesis by simp
  qed
  have "copy_to msg (unat authParamStart) (unat authParamStart + length ?tag) ?tag =
      Ok (msg\<lparr>elems := take (unat authParamStart) (elems msg) @ ?tag @
            drop (unat authParamStart + length ?tag) (elems msg)\<rparr>)"
    by (rule copy_to_inside) (simp only: tlen slot)
  then have copy: "copy_to msg (unat authParamStart) (unat (authParamStart + 12)) ?tag =
      Ok (msg\<lparr>elems := take (unat authParamStart) (elems msg) @ ?tag @
            drop (unat authParamStart + 12) (elems msg)\<rparr>)"
    by (simp only: tlen hi)
  show ?thesis
    using v f m by (simp add: authenticate_body_def sp key tag copy)
qed


lemma authenticate_test:
  "authenticate_body test_primitives test_packet test_msg 1 =
   Ok \<lparr>elems = 9 # replicate 12 80 @ [9], room = []\<rparr>"
proof -
  have "authenticate_body test_primitives test_packet test_msg 1 =
         Ok (test_msg\<lparr>elems := take (unat (1 :: 32 word)) (elems test_msg) @
               take 12 (hmac_rfc2104 (chosen_digest test_primitives (AuthenticationProtocol test_usm))
                 (localize (chosen_digest test_primitives (AuthenticationProtocol test_usm))
                    (AuthenticationPassphrase test_usm) (AuthoritativeEngineID test_usm))
                 (elems test_msg)) @
               drop (unat (1 :: 32 word) + 12) (elems test_msg)\<rparr>)"
    by (rule authenticate_body_closed)
      (simp_all add: test_packet_def test_usm_def test_msg_def test_primitives_sizes
        Version3_def AuthPriv_def AuthNoPriv_def UserSecurityModel_def)
  then show ?thesis
    by (simp add: test_msg_def test_usm_def hmac_rfc2104_def localize_def chosen_digest_def
        test_primitives_def MD5_def SHA_def Let_def)
qed

text \<open>
  C10. authenticate returns the message buffer as it is, with no error, when the packet's
  version is not 3 or the Auth flag is clear. Whenever it returns a buffer, the buffer has
  the length and capacity of the one it was given, and every byte outside the half-open
  range from \<open>authParamStart\<close> to \<open>authParamStart + 12\<close> is unchanged.
\<close>

theorem authenticate_frame:
  "(Version packet \<noteq> Version3 \<or> MsgFlags packet AND AuthNoPriv = 0 \<longrightarrow>
      authenticate c packet msg authParamStart = (Some msg, None)) \<and>
   (authenticate c packet msg authParamStart = (Some msg', None) \<longrightarrow>
      length (elems msg') = length (elems msg) \<and> length (room msg') = length (room msg) \<and>
      (\<forall>i < length (array msg).
         \<not> (unat authParamStart \<le> i \<and> i < unat authParamStart + 12) \<longrightarrow>
         array msg' ! i = array msg ! i))"
proof (intro conjI impI)
  assume "Version packet \<noteq> Version3 \<or> MsgFlags packet AND AuthNoPriv = 0"
  then show "authenticate c packet msg authParamStart = (Some msg, None)"
    by (simp add: authenticate_def authenticate_body_skips)
next
  assume "authenticate c packet msg authParamStart = (Some msg', None)"
  then have body: "authenticate_body c packet msg authParamStart = Ok msg'"
    by (simp add: authenticate_def split: result.splits)
  from authenticate_body_frame [OF body]
  show "length (elems msg') = length (elems msg)" and "length (room msg') = length (room msg)"
    and "\<forall>i < length (array msg).
         \<not> (unat authParamStart \<le> i \<and> i < unat authParamStart + 12) \<longrightarrow>
         array msg' ! i = array msg ! i"
    by blast+
qed

theorem authenticate_frame_witness:
  "authenticate test_primitives (test_packet\<lparr>MsgFlags := Reportable\<rparr>) test_msg 1 = (Some test_msg, None) \<and>
   authenticate test_primitives test_packet test_msg 1 =
     (Some \<lparr>elems = 9 # replicate 12 80 @ [9], room = []\<rparr>, None) \<and>
   array \<lparr>elems = 9 # replicate 12 80 @ [9], room = []\<rparr> ! 0 = array test_msg ! 0 \<and>
   array \<lparr>elems = 9 # replicate 12 80 @ [9], room = []\<rparr> ! 13 = array test_msg ! 13"
proof -
  let ?r = "\<lparr>elems = 9 # replicate 12 80 @ [9], room = []\<rparr>"
  have skip: "Version (test_packet\<lparr>MsgFlags := Reportable\<rparr>) \<noteq> Version3 \<or>
      MsgFlags (test_packet\<lparr>MsgFlags := Reportable\<rparr>) AND AuthNoPriv = 0"
    by (simp add: Reportable_def AuthNoPriv_def)
  have run: "authenticate test_primitives test_packet test_msg 1 = (Some ?r, None)"
    by (simp add: authenticate_def authenticate_test)
  from authenticate_frame [of "test_packet\<lparr>MsgFlags := Reportable\<rparr>" test_primitives test_msg 1 test_msg] skip
  have a: "authenticate test_primitives (test_packet\<lparr>MsgFlags := Reportable\<rparr>) test_msg 1 =
      (Some test_msg, None)"
    by blast
  from authenticate_frame [of test_packet test_primitives test_msg 1 ?r] run
  have b: "\<forall>i < length (array test_msg).
         \<not> (unat (1 :: 32 word) \<le> i \<and> i < unat (1 :: 32 word) + 12) \<longrightarrow>
         array ?r ! i = array test_msg ! i"
    by blast
  have "array ?r ! 0 = array test_msg ! 0"
    using b by (simp add: array_def test_msg_def)
  moreover have "array ?r ! 13 = array test_msg ! 13"
    using b [rule_format, of 13] by (simp add: array_def test_msg_def)
  ultimately show ?thesis
    using a run by simp
qed


section \<open>Properties of isAuthentic\<close>

lemma prefix_iff_take: "prefix xs ys \<longleftrightarrow> xs = take (length xs) ys"
proof
  assume "prefix xs ys"
  then obtain zs where "ys = xs @ zs" by (auto simp: prefix_def)
  then show "xs = take (length xs) ys" by simp
next
  assume "xs = take (length xs) ys"
  then have "prefix (take (length xs) ys) ys \<Longrightarrow> prefix xs ys" by simp
  then show "prefix xs ys" by (simp add: take_is_prefix)
qed

lemma compare_loop_within:
  "k + length vs \<le> length result \<Longrightarrow>
   compare_loop result k vs = Ok (vs = take (length vs) (drop k result))"
proof (induction vs arbitrary: k)
  case Nil
  then show ?case by simp
next
  case (Cons v vs)
  then have k: "k < length result" by simp
  then have d: "drop k result = result ! k # drop (Suc k) result"
    by (simp add: Cons_nth_drop_Suc)
  from Cons.prems have "Suc k + length vs \<le> length result" by simp
  then have "compare_loop result (Suc k) vs = Ok (vs = take (length vs) (drop (Suc k) result))"
    by (rule Cons.IH)
  then show ?case
    using k by (auto simp: d)
qed

lemma compare_loop_beyond:
  "k \<le> length result \<Longrightarrow> length result < k + length vs \<Longrightarrow>
   compare_loop result k vs \<noteq> Ok True"
proof (induction vs arbitrary: k)
  case Nil
  then show ?case by simp
next
  case (Cons v vs)
  show ?case
  proof (cases "length result \<le> k")
    case True
    then show ?thesis by simp
  next
    case False
    with Cons.prems have "Suc k \<le> length result" and "length result < Suc k + length vs"
      by simp_all
    then have "compare_loop result (Suc k) vs \<noteq> Ok True" by (rule Cons.IH)
    then show ?thesis using False by simp
  qed
qed

lemma isAuthentic_closed:
  assumes pw: "authPassphrase \<noteq> []" and sz: "digest_sizes c"
  shows "isAuthentic c msg authParams authProtocol authPassphrase authEngineID =
         compare_loop (expected_tag c authProtocol authPassphrase authEngineID msg) 0 authParams"
    and "length (expected_tag c authProtocol authPassphrase authEngineID msg) = 12"
proof -
  let ?H = "chosen_digest c authProtocol"
  let ?key = "localize ?H authPassphrase authEngineID"
  have key: "genlocalkey c authProtocol authPassphrase authEngineID = Ok ?key"
    by (rule genlocalkey_closed [OF pw])
  have klen: "length ?key \<le> 64"
    by (simp add: length_localize [OF sz])
  have dig: "keyed_digest c authProtocol ?key msg = hmac_rfc2104 ?H ?key msg"
    by (rule keyed_digest_hmac [OF klen])
  have len: "length (keyed_digest c authProtocol ?key msg) \<ge> 12"
    by (simp add: length_keyed_digest [OF sz])
  then show "length (expected_tag c authProtocol authPassphrase authEngineID msg) = 12"
    by (simp add: expected_tag_def dig)
  from len have "prefix_slice (keyed_digest c authProtocol ?key msg) 12 =
      Ok (expected_tag c authProtocol authPassphrase authEngineID msg)"
    by (simp add: prefix_slice_def expected_tag_def dig)
  then show "isAuthentic c msg authParams authProtocol authPassphrase authEngineID =
         compare_loop (expected_tag c authProtocol authPassphrase authEngineID msg) 0 authParams"
    by (simp add: isAuthentic_def key)
qed

lemma isAuthentic_iff_prefix:
  assumes pw: "authPassphrase \<noteq> []" and sz: "digest_sizes c"
  shows "isAuthentic c msg authParams authProtocol authPassphrase authEngineID = Ok True \<longleftrightarrow>
         prefix authParams (expected_tag c authProtocol authPassphrase authEngineID msg)"
proof -
  let ?tag = "expected_tag c authProtocol authPassphrase authEngineID msg"
  note a = isAuthentic_closed [OF pw sz]
  show ?thesis
  proof (cases "length authParams \<le> length ?tag")
    case True
    then have "compare_loop ?tag 0 authParams = Ok (authParams = take (length authParams) ?tag)"
      using compare_loop_within [where k = 0 and vs = authParams and result = ?tag] by simp
    then show ?thesis
      by (simp add: a(1) prefix_iff_take)
  next
    case False
    then have "compare_loop ?tag 0 authParams \<noteq> Ok True"
      using compare_loop_beyond [where k = 0 and vs = authParams and result = ?tag] by simp
    moreover have "\<not> prefix authParams ?tag"
      using False prefix_length_le by blast
    ultimately show ?thesis
      by (simp add: a(1))
  qed
qed

text \<open>
  C9. isAuthentic compares the received authentication parameters byte by byte with as
  many leading bytes of the recomputed 12-byte tag as the received string has: it returns
  true exactly when the received string equals the prefix of the tag of its own length, so
  every prefix of the tag, the empty string included, is accepted as authentic.
\<close>

theorem isAuthentic_accepts_prefixes:
  assumes "authPassphrase \<noteq> []" and "digest_sizes c"
  shows "length (expected_tag c authProtocol authPassphrase authEngineID msg) = 12 \<and>
         (isAuthentic c msg authParams authProtocol authPassphrase authEngineID = Ok True \<longleftrightarrow>
            authParams = take (length authParams)
              (expected_tag c authProtocol authPassphrase authEngineID msg)) \<and>
         (prefix authParams (expected_tag c authProtocol authPassphrase authEngineID msg) \<longrightarrow>
            isAuthentic c msg authParams authProtocol authPassphrase authEngineID = Ok True) \<and>
         isAuthentic c msg [] authProtocol authPassphrase authEngineID = Ok True"
  using isAuthentic_iff_prefix [OF assms] isAuthentic_closed(2) [OF assms]
  by (simp add: prefix_iff_take [symmetric])

theorem isAuthentic_accepts_prefixes_witness:
  "isAuthentic test_primitives (replicate 14 9) [80, 80, 80] MD5 [4] [1] = Ok True \<and>
   isAuthentic test_primitives (replicate 14 9) [] MD5 [4] [1] = Ok True \<and>
   expected_tag test_primitives MD5 [4] [1] (replicate 14 9) = replicate 12 80"
proof -
  have tag: "expected_tag test_primitives MD5 [4] [1] (replicate 14 9) = replicate 12 80"
    by (simp add: expected_tag_def hmac_rfc2104_def localize_def chosen_digest_def
        test_primitives_def MD5_def SHA_def Let_def)
  have n: "[4] \<noteq> ([] :: bytes)" by simp
  have p: "prefix [80, 80, 80] (expected_tag test_primitives MD5 [4] [1] (replicate 14 9))"
    unfolding tag by (simp add: prefix_iff_take)
  from isAuthentic_accepts_prefixes [OF n test_primitives_sizes, of MD5 "[1]" "replicate 14 9" "[80, 80, 80]"] p
  have "isAuthentic test_primitives (replicate 14 9) [80, 80, 80] MD5 [4] [1] = Ok True"
    by blast
  moreover
  from isAuthentic_accepts_prefixes [OF n test_primitives_sizes, of MD5 "[1]" "replicate 14 9" "[]"]
  have "isAuthentic test_primitives (replicate 14 9) [] MD5 [4] [1] = Ok True"
    by blast
  ultimately show ?thesis
    using tag by simp
qed


section \<open>The guard of validateParametersV3 and the empty passphrase\<close>

lemma and_3_cases:
  fixes f :: byte
  shows "f AND 3 = 0 \<or> f AND 3 = 1 \<or> f AND 3 = 2 \<or> f AND 3 = 3"
proof -
  have "f AND 3 \<le> 3"
    by (rule word_and_le1)
  then have "unat (f AND 3) \<le> 3"
    by (simp add: word_le_nat_alt)
  then have "unat (f AND 3) = 0 \<or> unat (f AND 3) = 1 \<or> unat (f AND 3) = 2 \<or> unat (f AND 3) = 3"
    by arith
  then show ?thesis
    by (auto simp: word_unat_eq_iff)
qed

lemma and_3_and_1:
  fixes f :: byte
  shows "(f AND 3) AND 1 = f AND 1"
proof -
  have "(3 :: byte) AND 1 = 1" by simp
  then show ?thesis by (simp add: and.assoc)
qed

lemma auth_flag_levels:
  fixes f :: byte
  assumes "f AND AuthNoPriv \<noteq> 0"
  shows "f AND AuthPriv = AuthPriv \<or> f AND AuthPriv = AuthNoPriv"
proof -
  from and_3_cases [of f] show ?thesis
  proof (elim disjE)
    assume "f AND 3 = 0"
    then have "f AND 1 = 0" using and_3_and_1 [of f] by simp
    with assms show ?thesis by (simp add: AuthNoPriv_def)
  next
    assume "f AND 3 = 2"
    then have "f AND 1 = 0" using and_3_and_1 [of f] by simp
    with assms show ?thesis by (simp add: AuthNoPriv_def)
  qed (simp_all add: AuthPriv_def AuthNoPriv_def)
qed

lemma validate_AuthNoPriv_passphrase:
  "validate_AuthNoPriv usm = None \<Longrightarrow> AuthenticationPassphrase usm \<noteq> []"
  by (auto simp: validate_AuthNoPriv_def split: if_splits)

lemma validate_AuthPriv_passphrase:
  "validate_AuthPriv usm = None \<Longrightarrow>
   PrivacyPassphrase usm \<noteq> [] \<and> AuthenticationPassphrase usm \<noteq> []"
  by (auto simp: validate_AuthPriv_def validate_AuthNoPriv_passphrase split: if_splits)

lemma validateParametersV3_passphrases:
  assumes "validateParametersV3 x = None" and "x_MsgFlags x AND AuthNoPriv \<noteq> 0"
  shows "\<exists>usm. x_SecurityParameters x = Usm usm \<and> AuthenticationPassphrase usm \<noteq> [] \<and>
           (x_MsgFlags x AND AuthPriv = AuthPriv \<longrightarrow> PrivacyPassphrase usm \<noteq> [])"
proof -
  from assms(1) obtain usm where usm: "x_SecurityParameters x = Usm usm"
    by (auto simp: validateParametersV3_def split: if_splits SnmpV3SecurityParameters.splits)
  from auth_flag_levels [OF assms(2)] show ?thesis
  proof
    assume l: "x_MsgFlags x AND AuthPriv = AuthPriv"
    with assms(1) usm have "validate_AuthPriv usm = None"
      by (simp add: validateParametersV3_def split: if_splits)
    then show ?thesis
      using usm validate_AuthPriv_passphrase by blast
  next
    assume l: "x_MsgFlags x AND AuthPriv = AuthNoPriv"
    then have n: "x_MsgFlags x AND AuthPriv \<noteq> AuthPriv"
      by (simp add: AuthPriv_def AuthNoPriv_def)
    with assms(1) usm l have "validate_AuthNoPriv usm = None"
      by (simp add: validateParametersV3_def split: if_splits)
    then show ?thesis
      using usm n validate_AuthNoPriv_passphrase by blast
  qed
qed

lemma authenticate_body_empty_passphrase:
  assumes "Version packet = Version3" and "MsgFlags packet AND AuthNoPriv \<noteq> 0"
    and "SecurityModel packet = UserSecurityModel" and "SecurityParameters packet = Usm secParams"
    and "AuthenticationPassphrase secParams = []"
  shows "authenticate_body c packet msg authParamStart = Panic DivideByZero"
  using assms by (simp add: authenticate_body_def genlocalkey_empty)

section \<open>Properties of buildPacket3\<close>












section \<open>The authentication parameters of an outbound message\<close>

lemma zero_slot_here: "zero_slot (pre @ replicate 12 0 @ post) (length pre)"
  by (simp add: zero_slot_def)

lemma zero_slot_append: "zero_slot buf n \<Longrightarrow> zero_slot (buf @ post) n"
  by (simp add: zero_slot_def)

lemma zero_slot_prepend: "zero_slot buf n \<Longrightarrow> zero_slot (pre @ buf) (length pre + n)"
  by (simp add: zero_slot_def)

lemma usm_zero_slot:
  assumes "marshalSnmpV3UsmSecurityParameters h packet = Ok (sp, a)"
    and "0 < MsgFlags packet AND AuthNoPriv"
  shows "\<exists>n. a = of_nat n \<and> zero_slot sp n"
proof -
  from assms(1) obtain secParams where u: "SecurityParameters packet = Usm secParams"
    by (auto simp: marshalSnmpV3UsmSecurityParameters_def split: SnmpV3SecurityParameters.splits)
  define pre where "pre = [OctetString, of_nat (length (AuthoritativeEngineID secParams))] @
      AuthoritativeEngineID secParams @
      [Integer, of_nat (length (marshalUvarInt h (AuthoritativeEngineBoots secParams)))] @
      marshalUvarInt h (AuthoritativeEngineBoots secParams) @
      [Integer, of_nat (length (marshalUvarInt h (AuthoritativeEngineTime secParams)))] @
      marshalUvarInt h (AuthoritativeEngineTime secParams) @
      [OctetString, of_nat (length (UserName secParams))] @ UserName secParams"
  from assms u obtain priv paramLen where
    sp: "sp = ([Sequence] @ paramLen @ pre @ [OctetString, 12]) @ replicate 12 0 @ priv"
    and a: "a = of_nat (length pre + 2) + of_nat (length ([Sequence] @ paramLen))"
    by (auto simp: marshalSnmpV3UsmSecurityParameters_def Let_def bind_eq_Ok pre_def
        numeral_eq_Suc split: if_splits)
  have "a = of_nat (length ([Sequence] @ paramLen @ pre @ [OctetString, 12]))"
    by (simp add: a)
  moreover have "zero_slot sp (length ([Sequence] @ paramLen @ pre @ [OctetString, 12]))"
    unfolding sp by (rule zero_slot_here)
  ultimately show ?thesis by blast
qed

lemma prepV3pPDU_zero_slot:
  assumes "prepV3pPDU h c packet msgid buf pdus requestid = Ok (buf', start)"
    and "0 < MsgFlags packet AND AuthNoPriv" and "SecurityModel packet = UserSecurityModel"
  shows "\<exists>n. start = of_nat n \<and> zero_slot buf' n"
proof -
  from assms(1,3) obtain header sp a secParamLen scopedPdu where
    usm: "marshalSnmpV3UsmSecurityParameters h packet = Ok (sp, a)"
    and buf': "buf' = (buf @ [Sequence, of_nat (length header)] @ header @ [OctetString] @ secParamLen) @
        sp @ scopedPdu"
    and start: "start = a + of_nat (length (buf @ [Sequence, of_nat (length header)] @ header @
        [OctetString] @ secParamLen))"
    by (auto simp: prepV3pPDU_def Let_def bind_eq_Ok split: prod.splits)
  from usm_zero_slot [OF usm assms(2)] obtain n where n: "a = of_nat n" "zero_slot sp n"
    by blast
  let ?pre = "buf @ [Sequence, of_nat (length header)] @ header @ [OctetString] @ secParamLen"
  have "zero_slot (?pre @ (sp @ scopedPdu)) (length ?pre + n)"
    by (intro zero_slot_prepend zero_slot_append n(2))
  moreover have "start = of_nat (length ?pre + n)"
    by (simp add: start n(1))
  ultimately show ?thesis
    unfolding buf' by blast
qed

lemma prepV3pPDU_offset:
  assumes "prepV3pPDU h c packet msgid buf pdus requestid = Ok (buf', start)"
    and "0 < MsgFlags packet AND AuthNoPriv" and "SecurityModel packet = UserSecurityModel"
    and "length buf' < 2 ^ 32"
  shows "unat start + 12 \<le> length buf' \<and> take 12 (drop (unat start) buf') = replicate 12 0"
proof -
  from prepV3pPDU_zero_slot [OF assms(1-3)] obtain n where
    n: "start = of_nat n" "zero_slot buf' n"
    by blast
  then have "n < 2 ^ 32"
    using assms(4) by (simp add: zero_slot_def)
  then have "unat start = n"
    by (simp add: n(1) unat_of_nat)
  then show ?thesis
    using n(2) by (simp add: zero_slot_def)
qed


lemma prepV3pPDU_test:
  "prepV3pPDU test_helpers test_primitives (test_packet\<lparr>MsgFlags := AuthNoPriv\<rparr>) 7 [2, 1, 3] [5, 6] 9 =
   Ok ([2, 1, 3, 48, 18, 2, 4, 0, 0, 0, 7, 2, 4, 0, 0, 255, 255, 4, 1, 1, 2,
      1, 3, 4, 36, 48, 34, 4, 1, 1, 2, 4, 0, 0, 0, 1, 2, 4, 0, 0, 0, 2, 4,
      1, 3, 4, 12, 0, 0, 0, 0, 0, 0, 0, 0, 0, 0, 0, 0, 4, 0, 48, 8, 4, 0, 4,
      0, 160, 2, 5, 6], 47)"
  by code_simp

text \<open>
  C2. For a version 3 packet of the User Security Model with the Auth flag set,
  authenticate computes the HMAC of RFC 2104 (64-byte block, the localized key XORed with
  ipad 0x36 and opad 0x5C) of the message it is given and overwrites the 12 bytes at
  \<open>authParamStart\<close> with the first 12 bytes of it, leaving the rest of the buffer as it
  is. The offset prepV3pPDU reports for the buffer it builds is that of 12 zero bytes, the
  reserved authentication parameters.
\<close>

theorem authenticate_writes_hmac:
  assumes "digest_sizes c" and "Version packet = Version3"
    and "MsgFlags packet AND AuthNoPriv \<noteq> 0" and "SecurityModel packet = UserSecurityModel"
    and "SecurityParameters packet = Usm secParams"
    and "AuthenticationPassphrase secParams \<noteq> []"
  shows "(unat authParamStart + 12 \<le> length (elems msg) \<and> length (elems msg) < 2 ^ 32 \<longrightarrow>
            authenticate c packet msg authParamStart =
              (Some (msg\<lparr>elems := take (unat authParamStart) (elems msg) @
                       take 12 (hmac_rfc2104 (chosen_digest c (AuthenticationProtocol secParams))
                         (localize (chosen_digest c (AuthenticationProtocol secParams))
                            (AuthenticationPassphrase secParams) (AuthoritativeEngineID secParams))
                         (elems msg)) @
                       drop (unat authParamStart + 12) (elems msg)\<rparr>), None)) \<and>
         length (take 12 (hmac_rfc2104 (chosen_digest c (AuthenticationProtocol secParams))
                   (localize (chosen_digest c (AuthenticationProtocol secParams))
                      (AuthenticationPassphrase secParams) (AuthoritativeEngineID secParams))
                   (elems msg))) = 12 \<and>
         (prepV3pPDU h c packet msgid buf pdus requestid = Ok (buf', start) \<and>
          length buf' < 2 ^ 32 \<longrightarrow>
            unat start + 12 \<le> length buf' \<and>
            take 12 (drop (unat start) buf') = replicate 12 0)"
proof (intro conjI impI)
  assume "unat authParamStart + 12 \<le> length (elems msg) \<and> length (elems msg) < 2 ^ 32"
  then have "authenticate_body c packet msg authParamStart =
         Ok (msg\<lparr>elems := take (unat authParamStart) (elems msg) @
               take 12 (hmac_rfc2104 (chosen_digest c (AuthenticationProtocol secParams))
                 (localize (chosen_digest c (AuthenticationProtocol secParams))
                    (AuthenticationPassphrase secParams) (AuthoritativeEngineID secParams))
                 (elems msg)) @
               drop (unat authParamStart + 12) (elems msg)\<rparr>)"
    using assms by (intro authenticate_body_closed) simp_all
  then show "authenticate c packet msg authParamStart =
              (Some (msg\<lparr>elems := take (unat authParamStart) (elems msg) @
                       take 12 (hmac_rfc2104 (chosen_digest c (AuthenticationProtocol secParams))
                         (localize (chosen_digest c (AuthenticationProtocol secParams))
                            (AuthenticationPassphrase secParams) (AuthoritativeEngineID secParams))
                         (elems msg)) @
                       drop (unat authParamStart + 12) (elems msg)\<rparr>), None)"
    by (simp add: authenticate_def)
next
  show "length (take 12 (hmac_rfc2104 (chosen_digest c (AuthenticationProtocol secParams))
                   (localize (chosen_digest c (AuthenticationProtocol secParams))
                      (AuthenticationPassphrase secParams) (AuthoritativeEngineID secParams))
                   (elems msg))) = 12"
    using isAuthentic_closed(2) [OF assms(6,1)] by (simp only: expected_tag_def)
next
  assume p: "prepV3pPDU h c packet msgid buf pdus requestid = Ok (buf', start) \<and>
      length buf' < 2 ^ 32"
  have f: "0 < MsgFlags packet AND AuthNoPriv"
    using assms(3) by (simp add: word_greater_zero_iff)
  from p prepV3pPDU_offset [OF _ f assms(4)]
  show "unat start + 12 \<le> length buf'" and "take 12 (drop (unat start) buf') = replicate 12 0"
    by blast+
qed


theorem authenticate_writes_hmac_witness:
  "authenticate test_primitives test_packet test_msg 1 =
     (Some \<lparr>elems = 9 # replicate 12 80 @ [9], room = []\<rparr>, None) \<and>
   prepV3pPDU test_helpers test_primitives (test_packet\<lparr>MsgFlags := AuthNoPriv\<rparr>) 7 [2, 1, 3] [5, 6] 9 =
     Ok ([2, 1, 3, 48, 18, 2, 4, 0, 0, 0, 7, 2, 4, 0, 0, 255, 255, 4, 1, 1, 2,
      1, 3, 4, 36, 48, 34, 4, 1, 1, 2, 4, 0, 0, 0, 1, 2, 4, 0, 0, 0, 2, 4,
      1, 3, 4, 12, 0, 0, 0, 0, 0, 0, 0, 0, 0, 0, 0, 0, 4, 0, 48, 8, 4, 0, 4,
      0, 160, 2, 5, 6], 47) \<and>
   take 12 (drop (unat (47 :: 32 word))
     [2, 1, 3, 48, 18, 2, 4, 0, 0, 0, 7, 2, 4, 0, 0, 255, 255, 4, 1, 1, 2,
      1, 3, 4, 36, 48, 34, 4, 1, 1, 2, 4, 0, 0, 0, 1, 2, 4, 0, 0, 0, 2, 4,
      1, 3, 4, 12, 0, 0, 0, 0, 0, 0, 0, 0, 0, 0, 0, 0, 4, 0, 48, 8, 4, 0, 4,
      0, 160, 2, 5, 6]) = replicate 12 (0 :: byte)"
proof -
  let ?buf = "[2, 1, 3, 48, 18, 2, 4, 0, 0, 0, 7, 2, 4, 0, 0, 255, 255, 4, 1, 1, 2,
      1, 3, 4, 36, 48, 34, 4, 1, 1, 2, 4, 0, 0, 0, 1, 2, 4, 0, 0, 0, 2, 4,
      1, 3, 4, 12, 0, 0, 0, 0, 0, 0, 0, 0, 0, 0, 0, 0, 4, 0, 48, 8, 4, 0, 4,
      0, 160, 2, 5, 6] :: bytes"
  let ?q = "test_packet\<lparr>MsgFlags := AuthNoPriv\<rparr>"
  have v: "Version test_packet = Version3" and f: "MsgFlags test_packet AND AuthNoPriv \<noteq> 0"
    and m: "SecurityModel test_packet = UserSecurityModel"
    and u: "SecurityParameters test_packet = Usm test_usm"
    and pw: "AuthenticationPassphrase test_usm \<noteq> []"
    by (simp_all add: test_packet_def test_usm_def AuthPriv_def AuthNoPriv_def)
  have v': "Version ?q = Version3" and f': "MsgFlags ?q AND AuthNoPriv \<noteq> 0"
    and m': "SecurityModel ?q = UserSecurityModel"
    and u': "SecurityParameters ?q = Usm test_usm"
    by (simp_all add: test_packet_def AuthNoPriv_def)
  have slot: "unat (1 :: 32 word) + 12 \<le> length (elems test_msg) \<and> length (elems test_msg) < 2 ^ 32"
    by (simp add: test_msg_def)
  have len: "length ?buf < 2 ^ 32"
    by simp
  from authenticate_writes_hmac [OF test_primitives_sizes v f m u pw, of 1 test_msg] slot
  have "authenticate test_primitives test_packet test_msg 1 =
      (Some (test_msg\<lparr>elems := take (unat (1 :: 32 word)) (elems test_msg) @
               take 12 (hmac_rfc2104 (chosen_digest test_primitives (AuthenticationProtocol test_usm))
                 (localize (chosen_digest test_primitives (AuthenticationProtocol test_usm))
                    (AuthenticationPassphrase test_usm) (AuthoritativeEngineID test_usm))
                 (elems test_msg)) @
               drop (unat (1 :: 32 word) + 12) (elems test_msg)\<rparr>), None)"
    by blast
  then have a: "authenticate test_primitives test_packet test_msg 1 =
     (Some \<lparr>elems = 9 # replicate 12 80 @ [9], room = []\<rparr>, None)"
    by (simp add: test_msg_def test_usm_def hmac_rfc2104_def localize_def chosen_digest_def
        test_primitives_def MD5_def SHA_def Let_def)
  from authenticate_writes_hmac [OF test_primitives_sizes v' f' m' u' pw,
      of _ _ test_helpers 7 "[2, 1, 3]" "[5, 6]" 9 ?buf 47] prepV3pPDU_test len
  have "take 12 (drop (unat (47 :: 32 word)) ?buf) = replicate 12 0"
    by blast
  then show ?thesis
    using a prepV3pPDU_test by simp
qed


section \<open>AES privacy of an outbound message\<close>

lemma test_primitives_lengths: "cipher_lengths test_primitives"
  by (simp add: cipher_lengths_def test_primitives_def)

lemma test_primitives_inverses: "cipher_inverses test_primitives"
  by (simp add: cipher_inverses_def test_primitives_def comp_def xor.assoc)


lemma marshalSnmpV3ScopedPDU_private:
  assumes "AuthNoPriv < MsgFlags packet AND AuthPriv" and "SecurityModel packet = UserSecurityModel"
    and "SecurityParameters packet = Usm secParams"
    and "PrivacyPassphrase secParams \<noteq> []"
    and "prepareSnmpV3ScopedPDU h packet pdus requestid = Ok inner"
    and "marshalLength h (length inner) = Ok pduLen"
  shows "marshalSnmpV3ScopedPDU h c packet pdus requestid =
         encrypt_scopedPdu h c secParams
           (localize (chosen_digest c (AuthenticationProtocol secParams))
              (PrivacyPassphrase secParams) (AuthoritativeEngineID secParams))
           ([Sequence] @ pduLen @ inner)"
  using assms
  by (simp add: marshalSnmpV3ScopedPDU_def genlocalkey_closed)






section \<open>Properties of the discovery\<close>

lemma storeSecurityParameters_Usm:
  assumes "storeSecurityParameters x1 result = Ok x2" and "x_SecurityModel x2 = UserSecurityModel"
    and "x_SecurityParameters x2 = Usm conn"
  shows "\<exists>new. SecurityParameters result = Usm new \<and>
           AuthoritativeEngineID conn = AuthoritativeEngineID new \<and>
           AuthoritativeEngineBoots conn = AuthoritativeEngineBoots new \<and>
           AuthoritativeEngineTime conn = AuthoritativeEngineTime new \<and>
           x_ContextEngineID x2 =
             (if x_ContextEngineID x1 = [] then AuthoritativeEngineID new else x_ContextEngineID x1)"
  using assms
  by (auto simp: storeSecurityParameters_def Let_def
      split: if_splits SnmpV3SecurityParameters.splits)

lemma updatePktSecurityParameters_Usm:
  assumes "updatePktSecurityParameters x2 packetOut = Ok packet'"
    and "SecurityModel packetOut = UserSecurityModel"
  shows "x_SecurityModel x2 = UserSecurityModel \<and>
         (\<exists>conn pkt. x_SecurityParameters x2 = Usm conn \<and> SecurityParameters packet' = Usm pkt \<and>
            AuthoritativeEngineID pkt = AuthoritativeEngineID conn \<and>
            AuthoritativeEngineBoots pkt = AuthoritativeEngineBoots conn \<and>
            AuthoritativeEngineTime pkt = AuthoritativeEngineTime conn)"
  using assms
  by (auto simp: updatePktSecurityParameters_def bind_eq_Ok
      split: if_splits SnmpV3SecurityParameters.splits)

lemma negotiate_probe:
  assumes "x_Version x = Version3" and "Version packetOut = Version3"
    and "x_SecurityModel x = UserSecurityModel" and "SecurityModel packetOut = UserSecurityModel"
    and "SecurityParameters packetOut = Usm secParams" and "AuthoritativeEngineID secParams = []"
  shows "negotiateInitialSecurityParameters sendOneRequest x packetOut wait =
         (case sendOneRequest x [] blankPacket wait of
            (x1, Ok result) \<Rightarrow>
              (case storeSecurityParameters x1 result of
                 Ok x2 \<Rightarrow> (x2, updatePktSecurityParameters x2 packetOut)
               | Err e \<Rightarrow> (x1, Err e)
               | Panic p \<Rightarrow> (x1, Panic p))
          | (x1, Err e) \<Rightarrow> (x1, Err e)
          | (x1, Panic p) \<Rightarrow> (x1, Panic p))"
  using assms by (simp add: negotiateInitialSecurityParameters_def)

text \<open>
  C8. On a version 3 connection of the User Security Model, for a packet whose
  authoritative engine id is empty, negotiateInitialSecurityParameters sends, with no PDUs,
  the blank packet: flags Reportable|NoAuthNoPriv, empty security parameters, type
  GetRequest. An error of the request is returned as it is. When the request and the
  negotiation succeed, the connection holds the engine id, boots and time of the response,
  its context engine id is the learned engine id if it was empty before, and the packet
  has the same engine id, boots and time.
\<close>

theorem discovery:
  assumes "x_Version x = Version3" and "Version packetOut = Version3"
    and "x_SecurityModel x = UserSecurityModel" and "SecurityModel packetOut = UserSecurityModel"
    and "SecurityParameters packetOut = Usm secParams" and "AuthoritativeEngineID secParams = []"
  shows "MsgFlags blankPacket = Reportable OR NoAuthNoPriv \<and>
         SecurityParameters blankPacket = Usm blankUsm \<and>
         AuthoritativeEngineID blankUsm = [] \<and> UserName blankUsm = [] \<and>
         AuthenticationParameters blankUsm = [] \<and> PrivacyParameters blankUsm = [] \<and>
         PDUType blankPacket = GetRequest \<and> Version blankPacket = Version3 \<and>
         SecurityModel blankPacket = UserSecurityModel \<and>
         (sendOneRequest x [] blankPacket wait = (x1, Err e) \<longrightarrow>
            negotiateInitialSecurityParameters sendOneRequest x packetOut wait = (x1, Err e)) \<and>
         (sendOneRequest x [] blankPacket wait = (x1, Ok result) \<longrightarrow>
            negotiateInitialSecurityParameters sendOneRequest x packetOut wait =
              (case storeSecurityParameters x1 result of
                 Ok x2 \<Rightarrow> (x2, updatePktSecurityParameters x2 packetOut)
               | Err e \<Rightarrow> (x1, Err e)
               | Panic p \<Rightarrow> (x1, Panic p))) \<and>
         (sendOneRequest x [] blankPacket wait = (x1, Ok result) \<and>
          negotiateInitialSecurityParameters sendOneRequest x packetOut wait = (x2, Ok packet') \<longrightarrow>
            (\<exists>new conn pkt.
               SecurityParameters result = Usm new \<and> x_SecurityParameters x2 = Usm conn \<and>
               SecurityParameters packet' = Usm pkt \<and>
               AuthoritativeEngineID conn = AuthoritativeEngineID new \<and>
               AuthoritativeEngineBoots conn = AuthoritativeEngineBoots new \<and>
               AuthoritativeEngineTime conn = AuthoritativeEngineTime new \<and>
               x_ContextEngineID x2 =
                 (if x_ContextEngineID x1 = [] then AuthoritativeEngineID new
                  else x_ContextEngineID x1) \<and>
               AuthoritativeEngineID pkt = AuthoritativeEngineID new \<and>
               AuthoritativeEngineBoots pkt = AuthoritativeEngineBoots new \<and>
               AuthoritativeEngineTime pkt = AuthoritativeEngineTime new))"
proof -
  note n = negotiate_probe [OF assms, of sendOneRequest wait]
  have blank: "MsgFlags blankPacket = Reportable OR NoAuthNoPriv \<and>
         SecurityParameters blankPacket = Usm blankUsm \<and>
         AuthoritativeEngineID blankUsm = [] \<and> UserName blankUsm = [] \<and>
         AuthenticationParameters blankUsm = [] \<and> PrivacyParameters blankUsm = [] \<and>
         PDUType blankPacket = GetRequest \<and> Version blankPacket = Version3 \<and>
         SecurityModel blankPacket = UserSecurityModel"
    by (simp add: blankPacket_def blankUsm_def)
  have err: "sendOneRequest x [] blankPacket wait = (x1, Err e) \<longrightarrow>
      negotiateInitialSecurityParameters sendOneRequest x packetOut wait = (x1, Err e)"
    by (simp add: n)
  have ok: "sendOneRequest x [] blankPacket wait = (x1, Ok result) \<longrightarrow>
      negotiateInitialSecurityParameters sendOneRequest x packetOut wait =
        (case storeSecurityParameters x1 result of
           Ok x2 \<Rightarrow> (x2, updatePktSecurityParameters x2 packetOut)
         | Err e \<Rightarrow> (x1, Err e)
         | Panic p \<Rightarrow> (x1, Panic p))"
    by (simp add: n)
  have stored: "\<exists>new conn pkt.
               SecurityParameters result = Usm new \<and> x_SecurityParameters x2 = Usm conn \<and>
               SecurityParameters packet' = Usm pkt \<and>
               AuthoritativeEngineID conn = AuthoritativeEngineID new \<and>
               AuthoritativeEngineBoots conn = AuthoritativeEngineBoots new \<and>
               AuthoritativeEngineTime conn = AuthoritativeEngineTime new \<and>
               x_ContextEngineID x2 =
                 (if x_ContextEngineID x1 = [] then AuthoritativeEngineID new
                  else x_ContextEngineID x1) \<and>
               AuthoritativeEngineID pkt = AuthoritativeEngineID new \<and>
               AuthoritativeEngineBoots pkt = AuthoritativeEngineBoots new \<and>
               AuthoritativeEngineTime pkt = AuthoritativeEngineTime new"
    if s: "sendOneRequest x [] blankPacket wait = (x1, Ok result)"
      and r: "negotiateInitialSecurityParameters sendOneRequest x packetOut wait = (x2, Ok packet')"
  proof -
    from r s have st: "storeSecurityParameters x1 result = Ok x2"
      and up: "updatePktSecurityParameters x2 packetOut = Ok packet'"
      by (auto simp: n split: result.splits)
    from updatePktSecurityParameters_Usm [OF up assms(4)] obtain conn pkt where
      c: "x_SecurityModel x2 = UserSecurityModel" "x_SecurityParameters x2 = Usm conn"
        "SecurityParameters packet' = Usm pkt"
        "AuthoritativeEngineID pkt = AuthoritativeEngineID conn"
        "AuthoritativeEngineBoots pkt = AuthoritativeEngineBoots conn"
        "AuthoritativeEngineTime pkt = AuthoritativeEngineTime conn"
      by blast
    from storeSecurityParameters_Usm [OF st c(1,2)] obtain new where
      "SecurityParameters result = Usm new"
      "AuthoritativeEngineID conn = AuthoritativeEngineID new"
      "AuthoritativeEngineBoots conn = AuthoritativeEngineBoots new"
      "AuthoritativeEngineTime conn = AuthoritativeEngineTime new"
      "x_ContextEngineID x2 =
         (if x_ContextEngineID x1 = [] then AuthoritativeEngineID new else x_ContextEngineID x1)"
      by blast
    with c show ?thesis
      by (intro exI [of _ new] exI [of _ conn] exI [of _ pkt]) simp
  qed
  from blank err ok stored show ?thesis
    by blast
qed


theorem discovery_witness:
  "negotiateInitialSecurityParameters (\<lambda>x (pdus :: byte list) packetOut wait. (x, Err (Foreign 9)))
     (test_conn\<lparr>x_SecurityParameters := Usm (test_usm\<lparr>AuthoritativeEngineID := []\<rparr>)\<rparr>)
     (test_packet\<lparr>SecurityParameters := Usm (test_usm\<lparr>AuthoritativeEngineID := []\<rparr>)\<rparr>) True =
     (test_conn\<lparr>x_SecurityParameters := Usm (test_usm\<lparr>AuthoritativeEngineID := []\<rparr>)\<rparr>,
      Err (Foreign 9)) \<and>
   negotiateInitialSecurityParameters test_sendOneRequest
     (test_conn\<lparr>x_SecurityParameters := Usm (test_usm\<lparr>AuthoritativeEngineID := []\<rparr>)\<rparr>)
     (test_packet\<lparr>SecurityParameters := Usm (test_usm\<lparr>AuthoritativeEngineID := []\<rparr>)\<rparr>) True =
     (test_conn\<lparr>x_msgID := 42, x_ContextEngineID := [0x80, 0, 0, 1, 2],
        x_SecurityParameters := Usm (test_usm\<lparr>AuthoritativeEngineID := [0x80, 0, 0, 1, 2],
           AuthoritativeEngineBoots := 3, AuthoritativeEngineTime := 99\<rparr>)\<rparr>,
      Ok (test_packet\<lparr>ContextEngineID := [0x80, 0, 0, 1, 2],
            SecurityParameters := Usm (test_usm\<lparr>AuthoritativeEngineID := [0x80, 0, 0, 1, 2],
              AuthoritativeEngineBoots := 3, AuthoritativeEngineTime := 99\<rparr>)\<rparr>))"
proof -
  let ?u = "test_usm\<lparr>AuthoritativeEngineID := []\<rparr>"
  let ?x = "test_conn\<lparr>x_SecurityParameters := Usm ?u\<rparr>"
  let ?p = "test_packet\<lparr>SecurityParameters := Usm ?u\<rparr>"
  let ?fail = "\<lambda>(x :: GoSNMP) (pdus :: byte list) (packetOut :: SnmpPacket) (wait :: bool).
      (x, Err (Foreign 9) :: SnmpPacket result)"
  let ?r = "blankPacket\<lparr>PDUType := 0xa8,
            SecurityParameters := Usm (blankUsm\<lparr>AuthoritativeEngineID := [0x80, 0, 0, 1, 2],
              AuthoritativeEngineBoots := 3, AuthoritativeEngineTime := 99\<rparr>)\<rparr>"
  have h: "x_Version ?x = Version3" "Version ?p = Version3" "x_SecurityModel ?x = UserSecurityModel"
    "SecurityModel ?p = UserSecurityModel" "SecurityParameters ?p = Usm ?u"
    "AuthoritativeEngineID ?u = []"
    by (simp_all add: test_conn_def test_packet_def)
  have f: "?fail ?x [] blankPacket True = (?x, Err (Foreign 9))"
    by simp
  have s: "test_sendOneRequest ?x [] blankPacket True = (?x\<lparr>x_msgID := x_msgID ?x + 1\<rparr>, Ok ?r)"
    by (simp add: test_sendOneRequest_def)
  from discovery [OF h, of ?fail True ?x "Foreign 9"] f
  have a: "negotiateInitialSecurityParameters ?fail ?x ?p True = (?x, Err (Foreign 9))"
    by blast
  from discovery [OF h, of test_sendOneRequest True "?x\<lparr>x_msgID := x_msgID ?x + 1\<rparr>" _ ?r] s
  have "negotiateInitialSecurityParameters test_sendOneRequest ?x ?p True =
      (case storeSecurityParameters (?x\<lparr>x_msgID := x_msgID ?x + 1\<rparr>) ?r of
         Ok x2 \<Rightarrow> (x2, updatePktSecurityParameters x2 ?p)
       | Err e \<Rightarrow> (?x\<lparr>x_msgID := x_msgID ?x + 1\<rparr>, Err e)
       | Panic p \<Rightarrow> (?x\<lparr>x_msgID := x_msgID ?x + 1\<rparr>, Panic p))"
    by blast
  then have "negotiateInitialSecurityParameters test_sendOneRequest ?x ?p True =
     (test_conn\<lparr>x_msgID := 42, x_ContextEngineID := [0x80, 0, 0, 1, 2],
        x_SecurityParameters := Usm (test_usm\<lparr>AuthoritativeEngineID := [0x80, 0, 0, 1, 2],
           AuthoritativeEngineBoots := 3, AuthoritativeEngineTime := 99\<rparr>)\<rparr>,
      Ok (test_packet\<lparr>ContextEngineID := [0x80, 0, 0, 1, 2],
            SecurityParameters := Usm (test_usm\<lparr>AuthoritativeEngineID := [0x80, 0, 0, 1, 2],
              AuthoritativeEngineBoots := 3, AuthoritativeEngineTime := 99\<rparr>)\<rparr>))"
    by (simp add: storeSecurityParameters_def updatePktSecurityParameters_def blankPacket_def
        blankUsm_def test_conn_def test_packet_def test_usm_def Let_def)
  with a show ?thesis
    by simp
qed


section \<open>DES privacy: padding and recovery\<close>

lemma test_helpers_lengths: "ber_lengths test_helpers"
  unfolding ber_lengths_def
proof (intro allI impI)
  fix n l tag and rest :: bytes
  assume a: "marshalLength test_helpers n = Ok l \<and> n \<le> length rest"
  show "parseLength test_helpers ([tag] @ l @ rest) = Ok (int (1 + length l + n), int (1 + length l))"
  proof (cases "n < 127")
    case True
    with a have l: "l = [of_nat n]"
      by (simp add: test_helpers_def test_marshalLength_def)
    have u: "unat (of_nat n :: byte) = n"
      using True by (simp add: unat_of_nat)
    have le: "(of_nat n :: byte) \<le> 127"
      using True u by (simp add: word_le_nat_alt)
    show ?thesis
    proof (cases "rest = []")
      case True
      with a show ?thesis
        by (simp add: l test_helpers_def test_parseLength_def)
    next
      case False
      then have "\<not> length ([tag] @ l @ rest) \<le> 2"
        by (cases rest) (simp_all add: l)
      then show ?thesis
        using le u by (simp add: l test_helpers_def test_parseLength_def uint_nat)
    qed
  next
    case False
    with a have n: "n < 256" and l: "l = [0x81, of_nat n]"
      by (auto simp: test_helpers_def test_marshalLength_def split: if_splits)
    have u: "unat (of_nat n :: byte) = n"
      using n by (simp add: unat_of_nat)
    have "\<not> (0x81 :: byte) \<le> 127"
      by (simp add: word_le_nat_alt)
    then show ?thesis
      using u by (simp add: l test_helpers_def test_parseLength_def uint_nat)
  qed
qed


lemma des_iv_Ok:
  assumes "16 \<le> length privkey" and "8 \<le> length pp"
  shows "\<exists>iv. des_iv privkey pp = Ok iv \<and> length iv = 8"
  using assms by (simp add: des_iv_def Let_def)

lemma encrypt_scopedPdu_DES:
  assumes "PrivacyProtocol secParams \<noteq> AES" and "16 \<le> length privkey"
    and "des_iv privkey (PrivacyParameters secParams) = Ok iv"
    and "marshalLength h (length (des_cbc_encrypt c (take 8 privkey) iv
           (scopedPdu @ replicate (8 - length scopedPdu mod 8) 0))) = Ok pduLen"
  shows "encrypt_scopedPdu h c secParams privkey scopedPdu =
         Ok ([OctetString] @ pduLen @
             des_cbc_encrypt c (take 8 privkey) iv
               (scopedPdu @ replicate (8 - length scopedPdu mod 8) 0))"
  using assms by (simp add: encrypt_scopedPdu_def prefix_slice_def Let_def)

lemma padded_length:
  "length (scopedPdu @ replicate (8 - length scopedPdu mod 8) (0 :: byte)) =
   8 * (length scopedPdu div 8 + 1)"
proof -
  have "n + (8 - n mod 8) = 8 * (n div 8 + 1)" for n :: nat
    by presburger
  then show ?thesis by simp
qed

lemma slice_from_append:
  "slice_from \<lparr>elems = pre @ post, room = r\<rparr> (int (length pre)) = Ok post"
  by (simp add: slice_from_def)

lemma slice_from_append2:
  "slice_from \<lparr>elems = pre @ mid @ post, room = r\<rparr> (int (length mid) + int (length pre)) = Ok post"
proof -
  have "slice_from \<lparr>elems = (pre @ mid) @ post, room = r\<rparr> (int (length (pre @ mid))) = Ok post"
    by (rule slice_from_append)
  then show ?thesis by (simp add: add.commute)
qed

lemma copy_from_shift:
  assumes "length plain \<le> length post"
  shows "copy_from \<lparr>elems = pre @ post, room = r\<rparr> (int (length pre)) plain =
         Ok \<lparr>elems = pre @ plain @ drop (length plain) post, room = r\<rparr>"
  using assms by (simp add: copy_from_def copy_to_def array_def Let_def min_def)

lemma slice_upto_cut:
  "slice_upto \<lparr>elems = pre @ keep @ rest, room = r\<rparr> (int (length pre) + int (length keep)) =
   Ok \<lparr>elems = pre @ keep, room = rest @ r\<rparr>"
proof -
  let ?s = "\<lparr>elems = pre @ keep @ rest, room = r\<rparr>"
  have n: "nat (int (length pre) + int (length keep)) = length (pre @ keep)"
    by simp
  have arr: "array ?s = (pre @ keep) @ (rest @ r)"
    by (simp add: array_def)
  have c: "0 \<le> int (length pre) + int (length keep) \<and>
      int (length pre) + int (length keep) \<le> int (length (array ?s))"
    by (simp add: array_def)
  have "(pre @ keep) @ (rest @ r) = array ?s"
    by (simp only: arr)
  then have "pre @ keep = take (length (pre @ keep)) (array ?s) \<and>
      rest @ r = drop (length (pre @ keep)) (array ?s)"
    by (simp only: append_eq_conv_conj)
  then show ?thesis
    unfolding slice_upto_def n using c by simp
qed


lemma decrypt_scopedPdu_DES:
  assumes "PrivacyProtocol secParams \<noteq> AES" and "16 \<le> length privkey"
    and "des_iv privkey (PrivacyParameters secParams) = Ok iv"
    and "length ct mod 8 = 0"
    and "plain = des_cbc_decrypt c (take 8 privkey) iv ct"
    and "length plain = length ct"
  shows "decrypt_scopedPdu c secParams privkey \<lparr>elems = pre @ hdr @ ct, room = r\<rparr>
           (int (length pre)) (int (length hdr) + int (length pre)) =
         Ok \<lparr>elems = pre @ plain, room = drop (length plain) (hdr @ ct) @ r\<rparr>"
proof -
  have fr: "slice_from \<lparr>elems = pre @ hdr @ ct, room = r\<rparr> (int (length hdr) + int (length pre)) = Ok ct"
    by (rule slice_from_append2)
  have "length plain \<le> length (hdr @ ct)"
    by (simp add: assms(6))
  then have copy: "copy_from \<lparr>elems = pre @ (hdr @ ct), room = r\<rparr> (int (length pre)) plain =
      Ok \<lparr>elems = pre @ plain @ drop (length plain) (hdr @ ct), room = r\<rparr>"
    by (rule copy_from_shift)
  have cut: "slice_upto \<lparr>elems = pre @ plain @ drop (length plain) (hdr @ ct), room = r\<rparr>
      (int (length pre) + int (length plain)) =
      Ok \<lparr>elems = pre @ plain, room = drop (length plain) (hdr @ ct) @ r\<rparr>"
    by (rule slice_upto_cut)
  have key: "prefix_slice privkey 8 = Ok (take 8 privkey)"
    using assms(2) by (simp add: prefix_slice_def)
  show ?thesis
    unfolding decrypt_scopedPdu_def
    using assms(1,4) copy cut
    by (simp add: fr assms(3) key assms(5) [symmetric] Let_def)
qed

lemma des_round_trip:
  assumes sz: "digest_sizes c" and len: "cipher_lengths c" and inv: "cipher_inverses c"
    and ber: "ber_lengths h"
    and model: "SecurityModel packet = UserSecurityModel"
    and usm: "SecurityParameters packet = Usm secParams"
    and des: "PrivacyProtocol secParams \<noteq> AES"
    and pw: "PrivacyPassphrase secParams \<noteq> []"
    and iv: "des_iv (localize (chosen_digest c (AuthenticationProtocol secParams))
               (PrivacyPassphrase secParams) (AuthoritativeEngineID secParams))
               (PrivacyParameters secParams) = Ok iv"
    and l1: "marshalLength h (length inner) = Ok innerLen"
    and scoped: "scoped = [Sequence] @ innerLen @ inner"
    and ct: "ct = des_cbc_encrypt c
               (take 8 (localize (chosen_digest c (AuthenticationProtocol secParams))
                  (PrivacyPassphrase secParams) (AuthoritativeEngineID secParams)))
               iv (scoped @ replicate (8 - length scoped mod 8) 0)"
    and l2: "marshalLength h (length ct) = Ok pduLen"
  shows "\<exists>room'.
           bind (open_scopedPdu h c \<lparr>elems = pre @ [OctetString] @ pduLen @ ct, room = r\<rparr>
                   (int (length pre)) packet)
             (\<lambda>p. truncate_scopedPdu h p (int (length pre))) =
           Ok (\<lparr>elems = pre @ scoped, room = room'\<rparr>, int (length pre) + int (1 + length innerLen))"
proof -
  let ?privkey = "localize (chosen_digest c (AuthenticationProtocol secParams))
      (PrivacyPassphrase secParams) (AuthoritativeEngineID secParams)"
  let ?pad = "replicate (8 - length scoped mod 8) (0 :: byte)"
  let ?hdr = "[OctetString] @ pduLen"
  have klen: "16 \<le> length ?privkey"
    by (simp add: length_localize [OF sz])
  have ctlen: "length ct = 8 * (length scoped div 8 + 1)"
    using len by (simp add: ct cipher_lengths_def padded_length del: length_append length_replicate)
  then have mod8: "length ct mod 8 = 0"
    by simp
  have "length (scoped @ ?pad) mod 8 = 0"
    by (simp only: padded_length) simp
  with inv have plain: "des_cbc_decrypt c (take 8 ?privkey) iv ct = scoped @ ?pad"
    by (simp add: ct cipher_inverses_def del: length_append length_replicate)
  have plen: "length (scoped @ ?pad) = length ct"
    by (simp only: padded_length ctlen)
  have p1: "parseLength h ([OctetString] @ pduLen @ ct) =
      Ok (int (1 + length pduLen + length ct), int (1 + length pduLen))"
    using ber l2 unfolding ber_lengths_def by blast
  have "parseLength h ([Sequence] @ innerLen @ (inner @ ?pad)) =
      Ok (int (1 + length innerLen + length inner), int (1 + length innerLen))"
    using ber l1 unfolding ber_lengths_def by (metis le_add1 length_append)
  then have p2: "parseLength h (scoped @ ?pad) = Ok (int (length scoped), int (1 + length innerLen))"
    by (simp add: scoped)
  let ?s0 = "\<lparr>elems = pre @ ?hdr @ ct, room = r\<rparr>"
  let ?room1 = "drop (length (scoped @ ?pad)) (?hdr @ ct) @ r"
  let ?s1 = "\<lparr>elems = pre @ (scoped @ ?pad), room = ?room1\<rparr>"
  have la: "length_at h ?s0 (int (length pre)) =
      Ok (int (1 + length pduLen + length ct), int (1 + length pduLen))"
    using p1 by (simp add: length_at_def slice_from_append)
  have hl: "int (length ?hdr) = int (1 + length pduLen)"
    by simp
  have "decrypt_scopedPdu c secParams ?privkey ?s0 (int (length pre))
      (int (length ?hdr) + int (length pre)) = Ok ?s1"
    by (rule decrypt_scopedPdu_DES [OF des klen iv mod8 plain [symmetric] plen])
  then have dec: "decrypt_scopedPdu c secParams ?privkey ?s0 (int (length pre))
      (int (1 + length pduLen) + int (length pre)) = Ok ?s1"
    by (simp only: hl)
  have opened: "open_scopedPdu h c ?s0 (int (length pre)) packet = Ok ?s1"
    unfolding open_scopedPdu_def la
    by (simp only: bind.simps prod.case Let_def model usm simp_thms if_True
        SnmpV3SecurityParameters.case genlocalkey_closed [OF pw] dec)
  have lb: "length_at h ?s1 (int (length pre)) = Ok (int (length scoped), int (1 + length innerLen))"
    using p2 by (simp add: length_at_def slice_from_append)
  have cut: "slice_upto \<lparr>elems = pre @ scoped @ ?pad, room = ?room1\<rparr>
      (int (length pre) + int (length scoped)) =
      Ok \<lparr>elems = pre @ scoped, room = ?pad @ ?room1\<rparr>"
    by (rule slice_upto_cut)
  have "truncate_scopedPdu h ?s1 (int (length pre)) =
      Ok (\<lparr>elems = pre @ scoped, room = ?pad @ ?room1\<rparr>, int (length pre) + int (1 + length innerLen))"
    unfolding truncate_scopedPdu_def lb
    by (simp only: bind.simps prod.case cut)
  with opened have "bind (open_scopedPdu h c ?s0 (int (length pre)) packet)
      (\<lambda>p. truncate_scopedPdu h p (int (length pre))) =
      Ok (\<lparr>elems = pre @ scoped, room = ?pad @ ?room1\<rparr>, int (length pre) + int (1 + length innerLen))"
    by (simp only: bind.simps)
  then show ?thesis
    by (intro exI [of _ "?pad @ ?room1"]) (simp only: append_assoc)
qed


text \<open>
  C3, as the code has it. With DES privacy marshalSnmpV3ScopedPDU appends
  \<open>8 - L mod 8\<close> zero bytes to the scoped PDU of length \<open>L\<close>, between 1 and 8 of them,
  and encrypts the result under the first 8 bytes of the localized privacy key and the
  initialisation vector of the pre-IV and the salt: the ciphertext has
  \<open>8 * (L div 8 + 1)\<close> bytes. On the receiving side the \<open>case OctetString\<close> of
  extractV3Packet decrypts it in place, and cutting the packet at the length the scoped
  PDU's own header gives leaves exactly the bytes of the scoped PDU behind the cursor.
\<close>

theorem des_padding_round_trip:
  assumes "digest_sizes c" and "cipher_lengths c" and "cipher_inverses c" and "ber_lengths h"
    and "AuthNoPriv < MsgFlags packet AND AuthPriv" and "SecurityModel packet = UserSecurityModel"
    and "SecurityParameters packet = Usm secParams" and "PrivacyProtocol secParams = DES"
    and "PrivacyPassphrase secParams \<noteq> []" and "8 \<le> length (PrivacyParameters secParams)"
    and "prepareSnmpV3ScopedPDU h packet pdus requestid = Ok inner"
    and "marshalLength h (length inner) = Ok innerLen"
    and "scoped = [Sequence] @ innerLen @ inner"
    and "marshalLength h (8 * (length scoped div 8 + 1)) = Ok pduLen"
    and "privkey = localize (chosen_digest c (AuthenticationProtocol secParams))
           (PrivacyPassphrase secParams) (AuthoritativeEngineID secParams)"
  shows "\<exists>iv ct room'.
           des_iv privkey (PrivacyParameters secParams) = Ok iv \<and>
           ct = des_cbc_encrypt c (take 8 privkey) iv
                  (scoped @ replicate (8 - length scoped mod 8) 0) \<and>
           marshalSnmpV3ScopedPDU h c packet pdus requestid = Ok ([OctetString] @ pduLen @ ct) \<and>
           length ct = 8 * (length scoped div 8 + 1) \<and>
           bind (open_scopedPdu h c \<lparr>elems = pre @ [OctetString] @ pduLen @ ct, room = r\<rparr>
                   (int (length pre)) packet)
             (\<lambda>p. truncate_scopedPdu h p (int (length pre))) =
           Ok (\<lparr>elems = pre @ scoped, room = room'\<rparr>, int (length pre) + int (1 + length innerLen))"
proof -
  let ?privkey = "localize (chosen_digest c (AuthenticationProtocol secParams))
      (PrivacyPassphrase secParams) (AuthoritativeEngineID secParams)"
  have des: "PrivacyProtocol secParams \<noteq> AES"
    by (simp add: assms(8) DES_def AES_def)
  have klen: "16 \<le> length ?privkey"
    by (simp add: length_localize [OF assms(1)])
  from des_iv_Ok [OF klen assms(10)] obtain iv where
    iv: "des_iv ?privkey (PrivacyParameters secParams) = Ok iv"
    by blast
  define ct where "ct = des_cbc_encrypt c (take 8 ?privkey) iv
      (scoped @ replicate (8 - length scoped mod 8) 0)"
  have ctlen: "length ct = 8 * (length scoped div 8 + 1)"
    using assms(2)
    by (simp add: ct_def cipher_lengths_def padded_length del: length_append length_replicate)
  have l2: "marshalLength h (length ct) = Ok pduLen"
    by (simp only: ctlen assms(14))
  have "marshalSnmpV3ScopedPDU h c packet pdus requestid =
      encrypt_scopedPdu h c secParams ?privkey ([Sequence] @ innerLen @ inner)"
    by (rule marshalSnmpV3ScopedPDU_private [OF assms(5,6,7,9,11,12)])
  also have "\<dots> = Ok ([OctetString] @ pduLen @ ct)"
    unfolding ct_def assms(13)
    by (rule encrypt_scopedPdu_DES [OF des klen iv]) (use l2 in \<open>simp only: ct_def assms(13)\<close>)
  finally have build: "marshalSnmpV3ScopedPDU h c packet pdus requestid =
      Ok ([OctetString] @ pduLen @ ct)" .
  from des_round_trip [OF assms(1-4) assms(6,7) des assms(9) iv assms(12,13) ct_def l2]
  obtain room' where
    "bind (open_scopedPdu h c \<lparr>elems = pre @ [OctetString] @ pduLen @ ct, room = r\<rparr>
            (int (length pre)) packet)
       (\<lambda>p. truncate_scopedPdu h p (int (length pre))) =
     Ok (\<lparr>elems = pre @ scoped, room = room'\<rparr>, int (length pre) + int (1 + length innerLen))"
    by blast
  with build ctlen ct_def iv show ?thesis
    unfolding assms(15) by blast
qed


lemma test_privkey:
  "localize (chosen_digest test_primitives (AuthenticationProtocol test_usm))
     (PrivacyPassphrase test_usm) (AuthoritativeEngineID test_usm) = replicate 16 33"
  by (simp add: localize_def chosen_digest_def test_primitives_def test_usm_def MD5_def SHA_def)

lemma test_des_iv:
  "des_iv (replicate 16 33) (PrivacyParameters test_usm) = Ok [33, 33, 33, 32, 33, 33, 33, 36]"
  by (simp add: des_iv_def test_usm_def Let_def upt_rec nth_Cons') 

text \<open>
  Against C3 as stated: a scoped PDU of 8 bytes is encrypted to 16 bytes, not to
  \<open>ceil(8/8)*8 = 8\<close>.
\<close>

theorem des_padding_adds_a_block:
  "prepareSnmpV3ScopedPDU test_helpers test_packet [] 9 = Ok [4, 0, 4, 0, 160, 0] \<and>
   length ([Sequence, 6] @ [4, 0, 4, 0, 160, 0 :: byte]) = 8 \<and>
   marshalSnmpV3ScopedPDU test_helpers test_primitives test_packet [] 9 =
     Ok ([OctetString, 16] @
         [17, 39, 37, 33, 37, 33, 129, 33, 33, 33, 33, 33, 33, 33, 33, 33]) \<and>
   length [17, 39, 37, 33, 37, 33, 129, 33, 33, 33, 33, 33, 33, 33, 33, 33 :: byte] = 16"
proof -
  have flags: "AuthNoPriv < MsgFlags test_packet AND AuthPriv"
    and model: "SecurityModel test_packet = UserSecurityModel"
    and usm: "SecurityParameters test_packet = Usm test_usm"
    and pw: "PrivacyPassphrase test_usm \<noteq> []"
    and des: "PrivacyProtocol test_usm \<noteq> AES"
    by (simp_all add: test_packet_def test_usm_def AuthPriv_def AuthNoPriv_def DES_def AES_def
        word_less_nat_alt)
  have inner: "prepareSnmpV3ScopedPDU test_helpers test_packet [] 9 = Ok [4, 0, 4, 0, 160, 0]"
    by (simp add: prepareSnmpV3ScopedPDU_def test_helpers_def test_marshalLength_def
        test_packet_def OctetString_def GetRequest_def)
  have l1: "marshalLength test_helpers (length [4, 0, 4, 0, 160, 0 :: byte]) = Ok [6]"
    by (simp add: test_helpers_def test_marshalLength_def)
  have ct: "des_cbc_encrypt test_primitives (take 8 (replicate 16 33)) [33, 33, 33, 32, 33, 33, 33, 36]
      (([Sequence] @ [6] @ [4, 0, 4, 0, 160, 0]) @
       replicate (8 - length ([Sequence] @ [6] @ [4, 0, 4, 0, 160, 0 :: byte]) mod 8) 0) =
      [17, 39, 37, 33, 37, 33, 129, 33, 33, 33, 33, 33, 33, 33, 33, 33]"
    by (simp add: test_primitives_def Sequence_def numeral_eq_Suc)
  have l2: "marshalLength test_helpers (length (des_cbc_encrypt test_primitives
      (take 8 (replicate 16 33)) [33, 33, 33, 32, 33, 33, 33, 36]
      (([Sequence] @ [6] @ [4, 0, 4, 0, 160, 0]) @
       replicate (8 - length ([Sequence] @ [6] @ [4, 0, 4, 0, 160, 0 :: byte]) mod 8) 0))) = Ok [16]"
    unfolding ct by (simp add: test_helpers_def test_marshalLength_def)
  have "marshalSnmpV3ScopedPDU test_helpers test_primitives test_packet [] 9 =
      encrypt_scopedPdu test_helpers test_primitives test_usm (replicate 16 33)
        ([Sequence] @ [6] @ [4, 0, 4, 0, 160, 0])"
    using marshalSnmpV3ScopedPDU_private [OF flags model usm pw inner l1, of test_primitives]
    by (simp only: test_privkey)
  also have "\<dots> = Ok ([OctetString] @ [16] @
      des_cbc_encrypt test_primitives (take 8 (replicate 16 33)) [33, 33, 33, 32, 33, 33, 33, 36]
        (([Sequence] @ [6] @ [4, 0, 4, 0, 160, 0]) @
         replicate (8 - length ([Sequence] @ [6] @ [4, 0, 4, 0, 160, 0 :: byte]) mod 8) 0))"
    by (rule encrypt_scopedPdu_DES [OF des _ test_des_iv l2]) simp
  finally show ?thesis
    unfolding ct using inner by simp
qed


theorem des_padding_round_trip_witness:
  "marshalSnmpV3ScopedPDU test_helpers test_primitives test_packet [5, 6] 9 =
     Ok ([OctetString, 16] @
         [17, 41, 37, 33, 37, 33, 129, 35, 36, 39, 33, 33, 33, 33, 33, 33]) \<and>
   (\<exists>room'.
      bind (open_scopedPdu test_helpers test_primitives
              \<lparr>elems = [1, 2, 3] @ [OctetString, 16] @
                 [17, 41, 37, 33, 37, 33, 129, 35, 36, 39, 33, 33, 33, 33, 33, 33],
               room = []\<rparr> 3 test_packet)
        (\<lambda>p. truncate_scopedPdu test_helpers p 3) =
      Ok (\<lparr>elems = [1, 2, 3] @ [Sequence, 8, 4, 0, 4, 0, 160, 2, 5, 6], room = room'\<rparr>, 5))"
proof -
  let ?privkey = "localize (chosen_digest test_primitives (AuthenticationProtocol test_usm))
      (PrivacyPassphrase test_usm) (AuthoritativeEngineID test_usm)"
  have flags: "AuthNoPriv < MsgFlags test_packet AND AuthPriv"
    and model: "SecurityModel test_packet = UserSecurityModel"
    and usm: "SecurityParameters test_packet = Usm test_usm"
    and des: "PrivacyProtocol test_usm = DES"
    and pw: "PrivacyPassphrase test_usm \<noteq> []"
    and pp: "8 \<le> length (PrivacyParameters test_usm)"
    by (simp_all add: test_packet_def test_usm_def AuthPriv_def AuthNoPriv_def word_less_nat_alt)
  have inner: "prepareSnmpV3ScopedPDU test_helpers test_packet [5, 6] 9 =
      Ok [4, 0, 4, 0, 160, 2, 5, 6]"
    by (simp add: prepareSnmpV3ScopedPDU_def test_helpers_def test_marshalLength_def
        test_packet_def OctetString_def GetRequest_def)
  have l1: "marshalLength test_helpers (length [4, 0, 4, 0, 160, 2, 5, 6 :: byte]) = Ok [8]"
    by (simp add: test_helpers_def test_marshalLength_def)
  have l2: "marshalLength test_helpers
      (8 * (length ([Sequence] @ [8] @ [4, 0, 4, 0, 160, 2, 5, 6 :: byte]) div 8 + 1)) = Ok [16]"
    by (simp add: test_helpers_def test_marshalLength_def)
  note ex = des_padding_round_trip [OF test_primitives_sizes test_primitives_lengths
      test_primitives_inverses test_helpers_lengths flags model usm des pw pp inner l1 refl l2 refl,
      of "[1, 2, 3]" "[]"]
  have pad: "replicate (8 - length ([Sequence] @ [8] @ [4, 0, 4, 0, 160, 2, 5, 6 :: byte]) mod 8) (0 :: byte) =
      [0, 0, 0, 0, 0, 0]"
    by code_simp
  have ev: "des_cbc_encrypt test_primitives (take 8 ?privkey) iv
           (([Sequence] @ [8] @ [4, 0, 4, 0, 160, 2, 5, 6]) @
            replicate (8 - length ([Sequence] @ [8] @ [4, 0, 4, 0, 160, 2, 5, 6 :: byte]) mod 8) 0) =
      [17, 41, 37, 33, 37, 33, 129, 35, 36, 39, 33, 33, 33, 33, 33, 33]" for iv
    unfolding test_privkey pad
    by (simp add: test_primitives_def Sequence_def numeral_eq_Suc)
  from ex show ?thesis
  proof (elim exE conjE)
    fix iv ct room'
    assume ct: "ct = des_cbc_encrypt test_primitives (take 8 ?privkey) iv
           (([Sequence] @ [8] @ [4, 0, 4, 0, 160, 2, 5, 6]) @
            replicate (8 - length ([Sequence] @ [8] @ [4, 0, 4, 0, 160, 2, 5, 6 :: byte]) mod 8) 0)"
      and build: "marshalSnmpV3ScopedPDU test_helpers test_primitives test_packet [5, 6] 9 =
           Ok ([OctetString] @ [16] @ ct)"
      and trip: "bind (open_scopedPdu test_helpers test_primitives
              \<lparr>elems = [1, 2, 3] @ [OctetString] @ [16] @ ct, room = []\<rparr>
              (int (length [1, 2, 3 :: byte])) test_packet)
        (\<lambda>p. truncate_scopedPdu test_helpers p (int (length [1, 2, 3 :: byte]))) =
      Ok (\<lparr>elems = [1, 2, 3] @ [Sequence] @ [8] @ [4, 0, 4, 0, 160, 2, 5, 6], room = room'\<rparr>,
          int (length [1, 2, 3 :: byte]) + int (1 + length [8 :: byte]))"
    have c: "ct = [17, 41, 37, 33, 37, 33, 129, 35, 36, 39, 33, 33, 33, 33, 33, 33]"
      unfolding ct by (rule ev)
    have "marshalSnmpV3ScopedPDU test_helpers test_primitives test_packet [5, 6] 9 =
        Ok ([OctetString, 16] @ [17, 41, 37, 33, 37, 33, 129, 35, 36, 39, 33, 33, 33, 33, 33, 33])"
      using build unfolding c by simp
    moreover have "bind (open_scopedPdu test_helpers test_primitives
              \<lparr>elems = [1, 2, 3] @ [OctetString, 16] @
                 [17, 41, 37, 33, 37, 33, 129, 35, 36, 39, 33, 33, 33, 33, 33, 33],
               room = []\<rparr> 3 test_packet)
        (\<lambda>p. truncate_scopedPdu test_helpers p 3) =
      Ok (\<lparr>elems = [1, 2, 3] @ [Sequence, 8, 4, 0, 4, 0, 160, 2, 5, 6], room = room'\<rparr>, 5)"
      using trip unfolding c by simp
    ultimately show ?thesis
      by (intro conjI exI [of _ room'])
  qed
qed


section \<open>Authentication of an inbound message\<close>


lemma check_authentic_skip:
  "\<not> 0 < flags AND AuthNoPriv \<Longrightarrow> check_authentic c packet cursor count flags sp orig = Ok packet"
  by (simp add: check_authentic_def)
















section \<open>Failures of the core functions\<close>

text \<open>
  Against C7 as stated: on the empty passphrase key localization panics, it does not
  return an error.
\<close>

theorem empty_passphrase_panics:
  "genlocalkey test_primitives MD5 [] [1] = Panic DivideByZero"
  by (rule genlocalkey_empty)

text \<open>
  C7, as the code has it. Key localization has no error result: it returns a key for every
  non-empty passphrase and panics with an integer division by zero on the empty one.
  validateParametersV3 is the guard: it accepts a connection whose Auth flag is set only
  with a non-empty authentication passphrase, and at level AuthPriv only with a non-empty
  privacy passphrase. authenticate never panics: it returns an error when the security
  model is not the User Security Model, and its deferred recover turns every panic of its
  body, that of an empty passphrase among them, into the return of \<open>(nil, nil)\<close>. Build
  and parse return errors for what they test (security parameters that are not USM
  parameters, a wrong tag) and panic on what they do not: the empty privacy passphrase, a
  cursor outside the packet.
\<close>

theorem failures_of_core_functions:
  "(passphrase \<noteq> [] \<longrightarrow>
      genlocalkey c p passphrase engineID = Ok (localize (chosen_digest c p) passphrase engineID)) \<and>
   genlocalkey c p [] engineID = Panic DivideByZero \<and>
   (validateParametersV3 x = None \<and> x_MsgFlags x AND AuthNoPriv \<noteq> 0 \<longrightarrow>
      (\<exists>usm. x_SecurityParameters x = Usm usm \<and> AuthenticationPassphrase usm \<noteq> [] \<and>
         (x_MsgFlags x AND AuthPriv = AuthPriv \<longrightarrow> PrivacyPassphrase usm \<noteq> []))) \<and>
   (authenticate c packet msg authParamStart = (None, None) \<longleftrightarrow>
      (\<exists>q. authenticate_body c packet msg authParamStart = Panic q)) \<and>
   (Version packet = Version3 \<and> MsgFlags packet AND AuthNoPriv \<noteq> 0 \<and>
    SecurityModel packet \<noteq> UserSecurityModel \<longrightarrow>
      authenticate c packet msg authParamStart = (None, Some UnknownSecurityModel)) \<and>
   (Version packet = Version3 \<and> MsgFlags packet AND AuthNoPriv \<noteq> 0 \<and>
    SecurityModel packet = UserSecurityModel \<and> SecurityParameters packet = Usm secParams \<and>
    AuthenticationPassphrase secParams = [] \<longrightarrow>
      authenticate c packet msg authParamStart = (None, None)) \<and>
   (AuthNoPriv < x_MsgFlags x AND AuthPriv \<and> x_SecurityModel x = UserSecurityModel \<and>
    x_SecurityParameters x = NilInterface \<longrightarrow>
      snd (buildPacket3 x msgID allMsgIDs packetOut) = Err ConnectionNotUsm) \<and>
   (AuthNoPriv < MsgFlags packet AND AuthPriv \<and> SecurityModel packet = UserSecurityModel \<and>
    SecurityParameters packet = Usm secParams \<and> PrivacyPassphrase secParams = [] \<and>
    prepareSnmpV3ScopedPDU h packet pdus requestid = Ok inner \<and>
    marshalLength h (length inner) = Ok pduLen \<longrightarrow>
      marshalSnmpV3ScopedPDU h c packet pdus requestid = Panic DivideByZero) \<and>
   (index_at inbound cursor = Ok t \<and> t \<noteq> Sequence \<longrightarrow>
      extractV3Packet h c inbound cursor response orig = Err InvalidHeader) \<and>
   (cursor < 0 \<or> int (length (elems inbound)) \<le> cursor \<longrightarrow>
      extractV3Packet h c inbound cursor response orig = Panic IndexOutOfRange)"
proof (intro conjI impI)
  show "genlocalkey c p [] engineID = Panic DivideByZero"
    by (rule genlocalkey_empty)
  show "authenticate c packet msg authParamStart = (None, None) \<longleftrightarrow>
      (\<exists>q. authenticate_body c packet msg authParamStart = Panic q)"
    by (simp add: authenticate_def split: result.splits)
next
  assume "passphrase \<noteq> []"
  then show "genlocalkey c p passphrase engineID =
      Ok (localize (chosen_digest c p) passphrase engineID)"
    by (rule genlocalkey_closed)
next
  assume "validateParametersV3 x = None \<and> x_MsgFlags x AND AuthNoPriv \<noteq> 0"
  then show "\<exists>usm. x_SecurityParameters x = Usm usm \<and> AuthenticationPassphrase usm \<noteq> [] \<and>
         (x_MsgFlags x AND AuthPriv = AuthPriv \<longrightarrow> PrivacyPassphrase usm \<noteq> [])"
    using validateParametersV3_passphrases by blast
next
  assume "Version packet = Version3 \<and> MsgFlags packet AND AuthNoPriv \<noteq> 0 \<and>
    SecurityModel packet \<noteq> UserSecurityModel"
  then show "authenticate c packet msg authParamStart = (None, Some UnknownSecurityModel)"
    by (simp add: authenticate_def authenticate_body_def)
next
  assume "Version packet = Version3 \<and> MsgFlags packet AND AuthNoPriv \<noteq> 0 \<and>
    SecurityModel packet = UserSecurityModel \<and> SecurityParameters packet = Usm secParams \<and>
    AuthenticationPassphrase secParams = []"
  then have "authenticate_body c packet msg authParamStart = Panic DivideByZero"
    using authenticate_body_empty_passphrase by blast
  then show "authenticate c packet msg authParamStart = (None, None)"
    by (simp add: authenticate_def)
next
  assume "AuthNoPriv < x_MsgFlags x AND AuthPriv \<and> x_SecurityModel x = UserSecurityModel \<and>
    x_SecurityParameters x = NilInterface"
  then show "snd (buildPacket3 x msgID allMsgIDs packetOut) = Err ConnectionNotUsm"
    by (simp add: buildPacket3_def Let_def)
next
  assume "AuthNoPriv < MsgFlags packet AND AuthPriv \<and> SecurityModel packet = UserSecurityModel \<and>
    SecurityParameters packet = Usm secParams \<and> PrivacyPassphrase secParams = [] \<and>
    prepareSnmpV3ScopedPDU h packet pdus requestid = Ok inner \<and>
    marshalLength h (length inner) = Ok pduLen"
  then show "marshalSnmpV3ScopedPDU h c packet pdus requestid = Panic DivideByZero"
    by (simp add: marshalSnmpV3ScopedPDU_def genlocalkey_empty)
next
  assume "index_at inbound cursor = Ok t \<and> t \<noteq> Sequence"
  then show "extractV3Packet h c inbound cursor response orig = Err InvalidHeader"
    by (simp add: extractV3Packet_def extract_header_def)
next
  assume "cursor < 0 \<or> int (length (elems inbound)) \<le> cursor"
  then have "index_at inbound cursor = Panic IndexOutOfRange"
    by (auto simp: index_at_def)
  then show "extractV3Packet h c inbound cursor response orig = Panic IndexOutOfRange"
    by (simp add: extractV3Packet_def extract_header_def)
qed

theorem failures_of_core_functions_witness:
  "genlocalkey test_primitives MD5 [4] [1] = Ok (replicate 16 33) \<and>
   validateParametersV3 test_conn = None \<and>
   AuthenticationPassphrase test_usm = [4] \<and> PrivacyPassphrase test_usm = [5] \<and>
   authenticate test_primitives (test_packet\<lparr>SecurityModel := 1\<rparr>) test_msg 1 =
     (None, Some UnknownSecurityModel) \<and>
   authenticate test_primitives
     (test_packet\<lparr>SecurityParameters := Usm (test_usm\<lparr>AuthenticationPassphrase := []\<rparr>)\<rparr>)
     test_msg 1 = (None, None) \<and>
   snd (buildPacket3 (test_conn\<lparr>x_SecurityParameters := NilInterface\<rparr>) 0 [] test_packet) =
     Err ConnectionNotUsm \<and>
   marshalSnmpV3ScopedPDU test_helpers test_primitives
     (test_packet\<lparr>SecurityParameters := Usm (test_usm\<lparr>PrivacyPassphrase := []\<rparr>)\<rparr>) [5, 6] 9 =
     Panic DivideByZero \<and>
   extractV3Packet test_helpers test_primitives \<lparr>elems = [2, 1, 3], room = []\<rparr> 0 test_packet [1] =
     Err InvalidHeader \<and>
   extractV3Packet test_helpers test_primitives \<lparr>elems = [], room = []\<rparr> 0 test_packet [1] =
     Panic IndexOutOfRange"
proof -
  note c1 = failures_of_core_functions [THEN conjunct1, rule_format]
  note c3 = failures_of_core_functions [THEN conjunct2, THEN conjunct2, THEN conjunct1, rule_format]
  note c5 = failures_of_core_functions [THEN conjunct2, THEN conjunct2, THEN conjunct2, THEN conjunct2, THEN conjunct1, rule_format]
  note c6 = failures_of_core_functions [THEN conjunct2, THEN conjunct2, THEN conjunct2, THEN conjunct2, THEN conjunct2, THEN conjunct1, rule_format]
  note c7 = failures_of_core_functions [THEN conjunct2, THEN conjunct2, THEN conjunct2, THEN conjunct2, THEN conjunct2, THEN conjunct2, THEN conjunct1, rule_format]
  note c8 = failures_of_core_functions [THEN conjunct2, THEN conjunct2, THEN conjunct2, THEN conjunct2, THEN conjunct2, THEN conjunct2, THEN conjunct2, THEN conjunct1, rule_format]
  note c9 = failures_of_core_functions [THEN conjunct2, THEN conjunct2, THEN conjunct2, THEN conjunct2, THEN conjunct2, THEN conjunct2, THEN conjunct2, THEN conjunct2, THEN conjunct1, rule_format]
  note c10 = failures_of_core_functions [THEN conjunct2, THEN conjunct2, THEN conjunct2, THEN conjunct2, THEN conjunct2, THEN conjunct2, THEN conjunct2, THEN conjunct2, THEN conjunct2, rule_format]
  let ?p1 = "test_packet\<lparr>SecurityModel := 1\<rparr>"
  let ?u2 = "test_usm\<lparr>AuthenticationPassphrase := []\<rparr>"
  let ?p2 = "test_packet\<lparr>SecurityParameters := Usm ?u2\<rparr>"
  let ?u3 = "test_usm\<lparr>PrivacyPassphrase := []\<rparr>"
  let ?p3 = "test_packet\<lparr>SecurityParameters := Usm ?u3\<rparr>"
  have v: "validateParametersV3 test_conn = None"
    by (simp add: validateParametersV3_def test_conn_def test_usm_def validate_AuthPriv_def
        validate_AuthNoPriv_def validate_NoAuthNoPriv_def UserSecurityModel_def AuthPriv_def
        AuthNoPriv_def NoAuthNoPriv_def NoPriv_def NoAuth_def DES_def MD5_def word_le_nat_alt)
  have "genlocalkey test_primitives MD5 [4] [1] =
      Ok (localize (chosen_digest test_primitives MD5) [4] [1])"
    by (rule c1) simp
  then have a: "genlocalkey test_primitives MD5 [4] [1] = Ok (replicate 16 33)"
    by (simp add: localize_def chosen_digest_def test_primitives_def MD5_def SHA_def)
  have "\<exists>usm. x_SecurityParameters test_conn = Usm usm \<and> AuthenticationPassphrase usm \<noteq> [] \<and>
      (x_MsgFlags test_conn AND AuthPriv = AuthPriv \<longrightarrow> PrivacyPassphrase usm \<noteq> [])"
    by (rule c3) (simp add: v, simp add: test_conn_def AuthPriv_def AuthNoPriv_def)
  then have b: "AuthenticationPassphrase test_usm = [4] \<and> PrivacyPassphrase test_usm = [5]"
    by (simp add: test_usm_def)
  have c: "authenticate test_primitives ?p1 test_msg 1 = (None, Some UnknownSecurityModel)"
    by (rule c5) (simp add: test_packet_def AuthPriv_def AuthNoPriv_def UserSecurityModel_def)
  have d: "authenticate test_primitives ?p2 test_msg 1 = (None, None)"
    by (rule c6 [where secParams = ?u2]) (simp add: test_packet_def AuthPriv_def AuthNoPriv_def)
  have e: "snd (buildPacket3 (test_conn\<lparr>x_SecurityParameters := NilInterface\<rparr>) 0 [] test_packet) =
      Err ConnectionNotUsm"
    by (rule c7) (simp add: test_conn_def AuthPriv_def AuthNoPriv_def word_less_nat_alt)
  have inner: "prepareSnmpV3ScopedPDU test_helpers ?p3 [5, 6] 9 = Ok [4, 0, 4, 0, 160, 2, 5, 6]"
    by code_simp
  have l: "marshalLength test_helpers (length [4, 0, 4, 0, 160, 2, 5, 6 :: byte]) = Ok [8]"
    by code_simp
  have pre: "AuthNoPriv < MsgFlags ?p3 AND AuthPriv" "SecurityModel ?p3 = UserSecurityModel"
    "SecurityParameters ?p3 = Usm ?u3" "PrivacyPassphrase ?u3 = []"
    by (simp_all add: test_packet_def AuthPriv_def AuthNoPriv_def word_less_nat_alt)
  have f: "marshalSnmpV3ScopedPDU test_helpers test_primitives ?p3 [5, 6] 9 = Panic DivideByZero"
    by (rule c8 [where secParams = ?u3 and inner = "[4, 0, 4, 0, 160, 2, 5, 6]" and pduLen = "[8]"])
      (intro conjI pre inner l)
  have g: "extractV3Packet test_helpers test_primitives \<lparr>elems = [2, 1, 3], room = []\<rparr> 0
      test_packet [1] = Err InvalidHeader"
    by (rule c9 [where t = 2]) (simp add: index_at_def Sequence_def)
  have h: "extractV3Packet test_helpers test_primitives \<lparr>elems = [], room = []\<rparr> 0
      test_packet [1] = Panic IndexOutOfRange"
    by (rule c10) simp
  from a v b c d e f g h show ?thesis
    by simp
qed


end
